(* ===== verification/Prelude.thy ===== *)
theory Prelude
  imports Complex_Main
begin

text \<open>
  Shared vocabulary of the development: the rule collections the component theories
  fill, the names of the model's basic types, and generic lemmas on maps, options and
  sums that the component proofs use.
\<close>

named_theorems js_eval "rules that evaluate the JavaScript number model on numerals"
named_theorems store_simps "rules that evaluate the ledger store's queries"

type_synonym money = rat
  \<comment> \<open>a PostgreSQL NUMERIC amount: an exact decimal, modelled as a rational\<close>
type_synonym oid = nat
  \<comment> \<open>an operation id, assigned by the store's sequence\<close>

subsection \<open>Maps\<close>

lemma map_add_Some_right [simp]: "m2 k = Some v \<Longrightarrow> (m1 ++ m2) k = Some v"
  by (simp add: map_add_def)

lemma map_add_None_right [simp]: "m2 k = None \<Longrightarrow> (m1 ++ m2) k = m1 k"
  by (simp add: map_add_def)

lemma map_add_upd_right: "m1 ++ m2(k \<mapsto> v) = (m1 ++ m2)(k \<mapsto> v)"
  by simp

subsection \<open>Sums as results\<close>

text \<open>A computation that may raise: \<open>Inl\<close> carries the exception, \<open>Inr\<close> the value.\<close>

lemma sum_case_Inl_Inr_eq [simp]: "(case x of Inl a \<Rightarrow> Inl a | Inr b \<Rightarrow> Inr b) = x"
  by (cases x) simp_all

subsection \<open>Finite sums over id ranges\<close>

lemma sum_lessThan_upd_outside:
  "(\<And>i. i < n \<Longrightarrow> f i = g i) \<Longrightarrow> (\<Sum>i<n. f i) = (\<Sum>i<n. g i)"
  by (rule sum.cong) simp_all

lemma sum_lessThan_single_change:
  fixes f g :: "nat \<Rightarrow> 'a::ab_group_add"
  assumes "k < n" and "\<And>i. i < n \<Longrightarrow> i \<noteq> k \<Longrightarrow> f i = g i"
  shows "(\<Sum>i<n. g i) = (\<Sum>i<n. f i) + (g k - f k)"
proof -
  have "(\<Sum>i<n. g i) = g k + (\<Sum>i\<in>{..<n} - {k}. g i)"
    using assms(1) by (simp add: sum.remove)
  also have "(\<Sum>i\<in>{..<n} - {k}. g i) = (\<Sum>i\<in>{..<n} - {k}. f i)"
    using assms(2) by (intro sum.cong) auto
  also have "(\<Sum>i<n. f i) = f k + (\<Sum>i\<in>{..<n} - {k}. f i)"
    using assms(1) by (simp add: sum.remove)
  ultimately show ?thesis by (simp add: algebra_simps)
qed

subsection \<open>Lists updated at one index\<close>

lemma count_list_update:
  "i < length xs \<Longrightarrow> count_list (xs[i := y]) z + (if xs ! i = z then 1 else 0) =
     count_list xs z + (if y = z then 1 else 0)"
proof (induction xs arbitrary: i)
  case (Cons x xs)
  show ?case
  proof (cases i)
    case (Suc k)
    with Cons.prems Cons.IH [of k] show ?thesis by (cases "y = z"; cases "xs ! k = z") simp_all
  qed simp
qed simp

lemma count_list_pos: "i < length xs \<Longrightarrow> xs ! i = z \<Longrightarrow> 0 < count_list xs z"
proof (induction xs arbitrary: i)
  case (Cons x xs)
  then show ?case by (cases i) auto
qed simp

lemma count_list_zero: "(\<forall>i<length xs. xs ! i \<noteq> z) \<Longrightarrow> count_list xs z = 0"
  by (auto simp: count_list_0_iff in_set_conv_nth)

lemma sum_list_map_update:
  "i < length xs \<Longrightarrow> sum_list (map f (xs[i := y])) + f (xs ! i) = sum_list (map f xs) + (f y :: nat)"
proof (induction xs arbitrary: i)
  case (Cons x xs)
  show ?case
  proof (cases i)
    case (Suc k)
    with Cons.prems Cons.IH [of k] show ?thesis by simp
  qed simp
qed simp

lemma length_filter_update:
  "i < length xs \<Longrightarrow> length (filter P (xs[i := y])) + (if P (xs ! i) then 1 else 0) =
     length (filter P xs) + (if P y then 1 else 0)"
proof (induction xs arbitrary: i)
  case (Cons x xs)
  show ?case
  proof (cases i)
    case (Suc k)
    with Cons.prems Cons.IH [of k] show ?thesis by (cases "P y"; cases "P (xs ! k)") simp_all
  qed simp
qed simp

lemma dropWhile_all_not: "\<forall>x \<in> set xs. \<not> P x \<Longrightarrow> dropWhile P xs = xs"
  by (induction xs) simp_all

subsection \<open>The first of a list of partial results\<close>

fun first_some :: "('a \<Rightarrow> 'b option) \<Rightarrow> 'a list \<Rightarrow> 'b option" where
  "first_some f [] = None"
| "first_some f (x # xs) = (case f x of None \<Rightarrow> first_some f xs | Some y \<Rightarrow> Some y)"

lemma first_some_Some: "first_some f xs = Some y \<Longrightarrow> \<exists>x \<in> set xs. f x = Some y"
  by (induction xs) (auto split: option.splits)

end
