(* ===== verification/JS_Number.thy ===== *)
theory JS_Number
  imports Prelude
begin

text \<open>
  The JavaScript values the route handlers of \<open>src/routes/operations.js\<close> compute with.
  A JavaScript number is an IEEE-754 binary64 value; \<open>jsnum\<close> holds the finite ones as
  canonical dyadics \<open>Fin m e\<close> (the value \<open>m * 2 ^ e\<close>, with \<open>m\<close> odd, or \<open>m = 0\<close>
  and \<open>e = 0\<close>) and the three special values. Negative zero is not distinguished from
  zero: no branch of the handlers can tell them apart (\<open>!(-0)\<close> and \<open>-0 <= 0\<close> agree
  with \<open>0\<close>). Multiplication and subtraction are exact dyadic arithmetic followed by
  rounding to nearest, ties to even, with gradual underflow and overflow to infinity,
  as IEEE-754 prescribes. All arithmetic is on integers, so the kernel evaluates it.
  \<open>jsval\<close> is the JSON value a request body field can hold.
\<close>

section \<open>Bit length\<close>

function bitlen :: "nat \<Rightarrow> nat" where
  "bitlen n = (if n = 0 then 0 else Suc (bitlen (n div 2)))"
  by pat_completeness auto
termination
  by (relation "measure id") auto

declare bitlen.simps [simp del]

lemma bitlen_0 [simp, js_eval]: "bitlen 0 = 0"
  by (simp add: bitlen.simps)

lemma bitlen_Suc_0 [simp, js_eval]: "bitlen (Suc 0) = 1"
  by (simp add: bitlen.simps)

lemma bitlen_numeral [simp, js_eval]: "bitlen (numeral k) = Suc (bitlen (numeral k div 2))"
  by (subst bitlen.simps) simp

lemma bitlen_pos: "0 < n \<Longrightarrow> bitlen n = Suc (bitlen (n div 2))"
  by (subst bitlen.simps) simp

lemma bitlen_less_iff: "n < 2 ^ k \<longleftrightarrow> bitlen n \<le> k"
proof (induction k arbitrary: n)
  case 0
  then show ?case by (cases "n = 0") (simp_all add: bitlen_pos)
next
  case (Suc k)
  show ?case
  proof (cases "n = 0")
    case True
    then show ?thesis by simp
  next
    case False
    have "n < 2 ^ Suc k \<longleftrightarrow> n div 2 < 2 ^ k" by auto
    also have "\<dots> \<longleftrightarrow> bitlen (n div 2) \<le> k" by (rule Suc.IH)
    finally show ?thesis using False by (simp add: bitlen_pos)
  qed
qed

lemma bitlen_lower: "0 < n \<Longrightarrow> 2 ^ (bitlen n - 1) \<le> n"
proof -
  assume "0 < n"
  then have "bitlen n \<noteq> 0" by (simp add: bitlen_pos)
  moreover have "\<not> n < 2 ^ (bitlen n - 1)"
    using \<open>bitlen n \<noteq> 0\<close> by (simp add: bitlen_less_iff)
  ultimately show ?thesis by simp
qed

section \<open>Binary64 values\<close>

definition pow2 :: "int \<Rightarrow> rat" where
  "pow2 e = (if 0 \<le> e then 2 ^ nat e else 1 / 2 ^ nat (- e))"

datatype jsnum = Fin int int | PosInf | NegInf | NaN

definition fin_val :: "int \<Rightarrow> int \<Rightarrow> rat" where
  "fin_val m e = of_int m * pow2 e"

fun js_value :: "jsnum \<Rightarrow> rat" where
  "js_value (Fin m e) = fin_val m e"
| "js_value _ = 0"

fun js_finite :: "jsnum \<Rightarrow> bool" where
  "js_finite (Fin m e) = True"
| "js_finite _ = False"

text \<open>The canonical form: strip the factors of two from the mantissa.\<close>

function canon :: "int \<Rightarrow> int \<Rightarrow> jsnum" where
  "canon m e = (if m = 0 then Fin 0 0 else if even m then canon (m div 2) (e + 1) else Fin m e)"
  by pat_completeness auto
termination
  by (relation "measure (\<lambda>(m, e). nat \<bar>m\<bar>)") auto

declare canon.simps [simp del]

lemma canon_0 [simp, js_eval]: "canon 0 e = Fin 0 0"
  by (simp add: canon.simps)

lemma canon_odd [simp, js_eval]: "odd m \<Longrightarrow> canon m e = Fin m e"
  by (subst canon.simps) auto

lemma canon_even [simp, js_eval]: "m \<noteq> 0 \<Longrightarrow> even m \<Longrightarrow> canon m e = canon (m div 2) (e + 1)"
  by (subst canon.simps) auto

text \<open>The well-formed values: canonical, and within the binary64 range.\<close>

fun is_double :: "jsnum \<Rightarrow> bool" where
  "is_double (Fin m e) =
     (m = 0 \<and> e = 0 \<or> odd m \<and> \<bar>m\<bar> < 2 ^ 53 \<and> - 1074 \<le> e \<and> int (bitlen (nat \<bar>m\<bar>)) + e \<le> 1024)"
| "is_double _ = True"

section \<open>Rounding\<close>

text \<open>\<open>p / q\<close> rounded to the nearest integer, ties to even (for \<open>0 < q\<close>).\<close>

definition round_even :: "int \<Rightarrow> int \<Rightarrow> int" where
  "round_even p q =
     (if 2 * (p mod q) < q then p div q
      else if q < 2 * (p mod q) then p div q + 1
      else if even (p div q) then p div q else p div q + 1)"

text \<open>
  The exact value \<open>a * 2 ^ e\<close> (\<open>0 \<le> a\<close>) keeps 53 significant bits and no bit below
  \<open>2 ^ -1074\<close>: \<open>round_shift a e\<close> is the number of low bits of \<open>a\<close> that are rounded off.
\<close>

definition round_shift :: "int \<Rightarrow> int \<Rightarrow> int" where
  "round_shift a e = max (int (bitlen (nat a)) + e - 53) (- 1074) - e"

definition round_mant :: "int \<Rightarrow> int \<Rightarrow> int" where
  "round_mant a s = (if s \<le> 0 then a else round_even a (2 ^ nat s))"

definition finish :: "int \<Rightarrow> int \<Rightarrow> int \<Rightarrow> jsnum" where
  "finish sg n e =
     (if n \<noteq> 0 \<and> 1024 < int (bitlen (nat n)) + e then (if 0 < sg then PosInf else NegInf)
      else canon (sg * n) e)"

definition round_dyadic :: "int \<Rightarrow> int \<Rightarrow> jsnum" where
  "round_dyadic m e =
     finish (sgn m) (round_mant \<bar>m\<bar> (round_shift \<bar>m\<bar> e)) (e + max 0 (round_shift \<bar>m\<bar> e))"

text \<open>Rounding a positive ratio \<open>p / q\<close>: the parsing of a decimal literal or text.\<close>

definition ge_pow2 :: "int \<Rightarrow> int \<Rightarrow> int \<Rightarrow> bool" where
  "ge_pow2 p q k = (if 0 \<le> k then q * 2 ^ nat k \<le> p else q \<le> p * 2 ^ nat (- k))"

definition bitlen_diff :: "int \<Rightarrow> int \<Rightarrow> int" where
  "bitlen_diff p q = int (bitlen (nat p)) - int (bitlen (nat q))"

definition flog2 :: "int \<Rightarrow> int \<Rightarrow> int" where
  "flog2 p q = (if ge_pow2 p q (bitlen_diff p q) then bitlen_diff p q else bitlen_diff p q - 1)"

definition ratio_exp :: "int \<Rightarrow> int \<Rightarrow> int" where
  "ratio_exp p q = max (flog2 p q - 52) (- 1074)"

definition ratio_mant :: "int \<Rightarrow> int \<Rightarrow> int \<Rightarrow> int" where
  "ratio_mant p q e =
     (if e \<le> 0 then round_even (p * 2 ^ nat (- e)) q else round_even p (q * 2 ^ nat e))"

fun js_neg :: "jsnum \<Rightarrow> jsnum" where
  "js_neg (Fin m e) = Fin (- m) e"
| "js_neg PosInf = NegInf"
| "js_neg NegInf = PosInf"
| "js_neg NaN = NaN"

definition round_ratio :: "int \<Rightarrow> int \<Rightarrow> jsnum" where
  "round_ratio p q =
     (if p = 0 then Fin 0 0
      else if 0 < p then finish 1 (ratio_mant p q (ratio_exp p q)) (ratio_exp p q)
      else js_neg (finish 1 (ratio_mant (- p) q (ratio_exp (- p) q)) (ratio_exp (- p) q)))"

text \<open>
  \<open>parseFloat\<close> of the decimal text of a rational, and a decimal literal
  \<open>d \<cdot> 10 ^ -k\<close> of the source (\<open>0.03\<close> is \<open>js_decimal 3 2\<close>).
\<close>

definition parse_float :: "rat \<Rightarrow> jsnum" where
  "parse_float x = (case quotient_of x of (p, q) \<Rightarrow> round_ratio p q)"

definition js_decimal :: "int \<Rightarrow> nat \<Rightarrow> jsnum" where
  "js_decimal d k = round_ratio d (10 ^ k)"

text \<open>The number a decimal \<open>n \<cdot> 10 ^ t\<close> denotes: its value, and the nearest binary64.\<close>

definition pow10 :: "int \<Rightarrow> rat" where
  "pow10 t = (if 0 \<le> t then 10 ^ nat t else 1 / 10 ^ nat (- t))"

definition dec_float :: "int \<Rightarrow> int \<Rightarrow> jsnum" where
  "dec_float n t = (if 0 \<le> t then round_ratio (n * 10 ^ nat t) 1 else round_ratio n (10 ^ nat (- t)))"

section \<open>Arithmetic and comparison\<close>

text \<open>\<open>x * y\<close>; the sign of an infinite operand or result follows the signs of the operands.\<close>

fun js_mul :: "jsnum \<Rightarrow> jsnum \<Rightarrow> jsnum" where
  "js_mul (Fin m1 e1) (Fin m2 e2) = round_dyadic (m1 * m2) (e1 + e2)"
| "js_mul NaN y = NaN"
| "js_mul x NaN = NaN"
| "js_mul (Fin m e) y = (if m = 0 then NaN else if 0 < m then y else js_neg y)"
| "js_mul x (Fin m e) = (if m = 0 then NaN else if 0 < m then x else js_neg x)"
| "js_mul x y = (if x = y then PosInf else NegInf)"

text \<open>\<open>x - y\<close>: the exact difference on the common exponent, then rounded.\<close>

fun js_sub :: "jsnum \<Rightarrow> jsnum \<Rightarrow> jsnum" where
  "js_sub (Fin m1 e1) (Fin m2 e2) =
     round_dyadic (m1 * 2 ^ nat (e1 - min e1 e2) - m2 * 2 ^ nat (e2 - min e1 e2)) (min e1 e2)"
| "js_sub NaN y = NaN"
| "js_sub x NaN = NaN"
| "js_sub (Fin m e) y = js_neg y"
| "js_sub x (Fin m e) = x"
| "js_sub x y = (if x = y then NaN else x)"

definition dy_le :: "int \<Rightarrow> int \<Rightarrow> int \<Rightarrow> int \<Rightarrow> bool" where
  "dy_le m1 e1 m2 e2 = (m1 * 2 ^ nat (e1 - min e1 e2) \<le> m2 * 2 ^ nat (e2 - min e1 e2))"

text \<open>\<open>x <= y\<close>: false whenever an operand is \<open>NaN\<close>.\<close>

fun js_le :: "jsnum \<Rightarrow> jsnum \<Rightarrow> bool" where
  "js_le NaN y = False"
| "js_le x NaN = False"
| "js_le NegInf y = True"
| "js_le x PosInf = True"
| "js_le PosInf y = False"
| "js_le x NegInf = False"
| "js_le (Fin m1 e1) (Fin m2 e2) = dy_le m1 e1 m2 e2"

section \<open>JSON request values\<close>

text \<open>
  A field of a parsed JSON body: absent (\<open>undefined\<close>), \<open>null\<close>, a boolean, a number,
  a string, or an object or array (always truthy; its contents matter to no branch of the
  handlers).
\<close>

datatype jsval = JUndefined | JNull | JBool bool | JNumber jsnum | JString string | JObject

text \<open>JavaScript truthiness, as \<open>!x\<close> tests it.\<close>

fun js_truthy :: "jsval \<Rightarrow> bool" where
  "js_truthy JUndefined = False"
| "js_truthy JNull = False"
| "js_truthy (JBool b) = b"
| "js_truthy (JNumber n) = (n \<noteq> Fin 0 0 \<and> n \<noteq> NaN)"
| "js_truthy (JString s) = (s \<noteq> [])"
| "js_truthy JObject = True"

lemmas js_arith_defs [js_eval] =
  round_even_def round_shift_def round_mant_def finish_def round_dyadic_def
  ge_pow2_def bitlen_diff_def flog2_def ratio_exp_def ratio_mant_def round_ratio_def
  js_decimal_def dy_le_def max_def min_def

end
