(* ===== verification/Ledger.thy ===== *)
theory Ledger
  imports JS_Number
begin

text \<open>
  The Ledger Store: the PostgreSQL database behind \<open>require('../database')\<close>, which is
  not among the repository's sources; this theory models the contract of spec.md section
  4.2 and the queries \<open>src/routes/operations.js\<close> issues. The committed tables are the
  record \<open>ledger\<close>; an open transaction keeps its writes in a buffer (\<open>wbuf\<close>) that
  \<open>COMMIT\<close> applies and \<open>ROLLBACK\<close> drops, and every statement of the transaction reads
  the committed tables overlaid with its own writes. Any query may fail (connection loss,
  timeout): the list \<open>faults\<close> decides, query by query, which ones do. The column types
  are not in the repository either, so how the store reads a parameter as a key, and how
  it stores a JavaScript number in a NUMERIC column, is the configuration record
  \<open>store_cfg\<close>.
\<close>

section \<open>Tables\<close>

datatype op_status = Pending | Confirmed

lemma op_status_not_Confirmed [simp]: "x \<noteq> Confirmed \<longleftrightarrow> x = Pending"
  by (cases x) simp_all

record 'r operation =
  op_id :: oid
  op_receiver :: 'r
  op_gross :: money
  op_fee :: money
  op_net :: money
  op_status :: op_status
  op_created :: nat

record 'r ledger =
  receivers :: "'r \<rightharpoonup> money"
  operations :: "oid \<rightharpoonup> 'r operation"
  next_oid :: oid
  clock :: nat

text \<open>How a query parameter reads as a key of an id column: a key, SQL \<open>NULL\<close>, or a cast error.\<close>

datatype 'k key_param = KeyOf 'k | KeyNull | KeyInvalid

record 'r store_cfg =
  receiver_key :: "jsval \<Rightarrow> 'r key_param"
  operation_key :: "string \<Rightarrow> oid key_param"
  money_in :: "jsnum \<Rightarrow> money option"

text \<open>
  An exception the route code can meet inside its \<open>try\<close>: a failed query, a parameter
  the column cannot read, a value the column rejects, a foreign key violation, or the
  \<open>TypeError\<close> of reading a field of a missing row.
\<close>

datatype exn = ConnectionFault | InvalidParam | ValueRejected | ForeignKeyViolation | TypeError

record 'r wbuf =
  wb_ops :: "oid \<rightharpoonup> 'r operation"
  wb_bal :: "'r \<rightharpoonup> money"

record 'r store =
  committed :: "'r ledger"
  txn :: "'r wbuf option"
  faults :: "bool list"

type_synonym ('r, 'a) query = "'r store \<Rightarrow> (exn + 'a) \<times> 'r store"

definition empty_wbuf :: "'r wbuf" where
  "empty_wbuf = \<lparr>wb_ops = Map.empty, wb_bal = Map.empty\<rparr>"

definition apply_wbuf :: "'r wbuf \<Rightarrow> 'r ledger \<Rightarrow> 'r ledger" where
  "apply_wbuf wb l =
     l\<lparr>operations := operations l ++ wb_ops wb, receivers := receivers l ++ wb_bal wb\<rparr>"

text \<open>What a statement on the connection reads.\<close>

definition view_of :: "'r ledger \<Rightarrow> 'r wbuf option \<Rightarrow> 'r ledger" where
  "view_of c w = (case w of None \<Rightarrow> c | Some wb \<Rightarrow> apply_wbuf wb c)"

definition view :: "'r store \<Rightarrow> 'r ledger" where
  "view s = view_of (committed s) (txn s)"

section \<open>Queries\<close>

text \<open>Sequencing of queries: the first exception ends the sequence.\<close>

definition qbind :: "('r, 'a) query \<Rightarrow> ('a \<Rightarrow> ('r, 'b) query) \<Rightarrow> ('r, 'b) query" where
  "qbind m f s = (case m s of (Inl e, s') \<Rightarrow> (Inl e, s') | (Inr a, s') \<Rightarrow> f a s')"

definition qreturn :: "'a \<Rightarrow> ('r, 'a) query" where
  "qreturn a s = (Inr a, s)"

definition qthrow :: "exn \<Rightarrow> ('r, 'a) query" where
  "qthrow e s = (Inl e, s)"

text \<open>\<open>try { m } catch (e) { h e }\<close> and \<open>finally\<close>.\<close>

definition qcatch :: "('r, 'a) query \<Rightarrow> (exn \<Rightarrow> ('r, 'a) query) \<Rightarrow> ('r, 'a) query" where
  "qcatch m h s = (case m s of (Inl e, s') \<Rightarrow> h e s' | (Inr a, s') \<Rightarrow> (Inr a, s'))"

definition qfinally :: "('r, 'a) query \<Rightarrow> ('r store \<Rightarrow> 'r store) \<Rightarrow> ('r, 'a) query" where
  "qfinally m f s = (case m s of (x, s') \<Rightarrow> (x, f s'))"

text \<open>Each query first asks the fault list whether it fails.\<close>

fun take_fault :: "bool list \<Rightarrow> bool \<times> bool list" where
  "take_fault [] = (False, [])"
| "take_fault (b # bs) = (b, bs)"

definition guarded :: "('r, 'a) query \<Rightarrow> ('r, 'a) query" where
  "guarded q s =
     (case take_fault (faults s) of
        (True, fs) \<Rightarrow> (Inl ConnectionFault, s\<lparr>faults := fs\<rparr>)
      | (False, fs) \<Rightarrow> q (s\<lparr>faults := fs\<rparr>))"

text \<open>
  A statement of the store is a function of the committed tables and of the connection's
  open transaction: its result, and the new tables and buffer. \<open>on_tables\<close> runs it on
  the connection, after asking the fault list whether the query fails.
\<close>

type_synonym ('r, 'a) table_op =
  "'r ledger \<Rightarrow> 'r wbuf option \<Rightarrow> (exn + 'a) \<times> 'r ledger \<times> 'r wbuf option"

definition on_tables :: "('r, 'a) table_op \<Rightarrow> ('r, 'a) query" where
  "on_tables f = guarded (\<lambda>s. case f (committed s) (txn s) of
      (x, c, w) \<Rightarrow> (x, s\<lparr>committed := c, txn := w\<rparr>))"

definition q_connect :: "('r, unit) query" where
  "q_connect = guarded (qreturn ())"

definition t_begin :: "('r, unit) table_op" where
  "t_begin c w = (Inr (), c, Some (case w of None \<Rightarrow> empty_wbuf | Some wb \<Rightarrow> wb))"

definition t_commit :: "('r, unit) table_op" where
  "t_commit c w = (Inr (), view_of c w, None)"

definition t_rollback :: "('r, unit) table_op" where
  "t_rollback c w = (Inr (), c, None)"

text \<open>
  \<open>client.release()\<close>: the connection goes back to the pool; a transaction still open
  on it (its \<open>ROLLBACK\<close> failed, so the connection is broken) is aborted by the server.
\<close>

definition release :: "'r store \<Rightarrow> 'r store" where
  "release s = s\<lparr>txn := None\<rparr>"

text \<open>A write goes to the open transaction's buffer, or is committed at once.\<close>

definition put_op :: "oid \<Rightarrow> 'r operation \<Rightarrow> 'r ledger \<Rightarrow> 'r wbuf option \<Rightarrow> 'r ledger \<times> 'r wbuf option" where
  "put_op k op c w = (case w of
      None \<Rightarrow> (c\<lparr>operations := (operations c)(k \<mapsto> op)\<rparr>, None)
    | Some wb \<Rightarrow> (c, Some (wb\<lparr>wb_ops := (wb_ops wb)(k \<mapsto> op)\<rparr>)))"

definition put_bal :: "'r \<Rightarrow> money \<Rightarrow> 'r ledger \<Rightarrow> 'r wbuf option \<Rightarrow> 'r ledger \<times> 'r wbuf option" where
  "put_bal r b c w = (case w of
      None \<Rightarrow> (c\<lparr>receivers := (receivers c)(r \<mapsto> b)\<rparr>, None)
    | Some wb \<Rightarrow> (c, Some (wb\<lparr>wb_bal := (wb_bal wb)(r \<mapsto> b)\<rparr>)))"

text \<open>\<open>SELECT id FROM receivers WHERE id = $1\<close>: whether a row comes back.\<close>

definition t_receiver_exists :: "'r store_cfg \<Rightarrow> jsval \<Rightarrow> ('r, bool) table_op" where
  "t_receiver_exists cfg v c w = (case receiver_key cfg v of
      KeyInvalid \<Rightarrow> (Inl InvalidParam, c, w)
    | KeyNull \<Rightarrow> (Inr False, c, w)
    | KeyOf r \<Rightarrow> (Inr (receivers (view_of c w) r \<noteq> None), c, w))"

text \<open>\<open>SELECT * FROM operations WHERE id = $1\<close>, the id being a route parameter.\<close>

definition t_find_operation :: "'r store_cfg \<Rightarrow> string \<Rightarrow> ('r, 'r operation option) table_op" where
  "t_find_operation cfg t c w = (case operation_key cfg t of
      KeyInvalid \<Rightarrow> (Inl InvalidParam, c, w)
    | KeyNull \<Rightarrow> (Inr None, c, w)
    | KeyOf k \<Rightarrow> (Inr (operations (view_of c w) k), c, w))"

text \<open>
  \<open>INSERT INTO operations (receiver_id, gross_value, fee, net_value, status) VALUES
  ($1, $2, $3, $4, 'pending') RETURNING *\<close>: the parameters are cast first; the id is
  drawn from the sequence (consumed even when the foreign key check then fails), and
  \<open>created_at\<close> is the store's clock.
\<close>

definition new_operation :: "oid \<Rightarrow> 'r \<Rightarrow> money \<Rightarrow> money \<Rightarrow> money \<Rightarrow> nat \<Rightarrow> 'r operation" where
  "new_operation k r gm fm nm now =
     \<lparr>op_id = k, op_receiver = r, op_gross = gm, op_fee = fm, op_net = nm,
      op_status = Pending, op_created = now\<rparr>"

definition t_insert_operation ::
  "'r store_cfg \<Rightarrow> jsval \<Rightarrow> jsnum \<Rightarrow> jsnum \<Rightarrow> jsnum \<Rightarrow> ('r, 'r operation) table_op" where
  "t_insert_operation cfg v g f n c w =
     (case (receiver_key cfg v, money_in cfg g, money_in cfg f, money_in cfg n) of
       (KeyOf r, Some gm, Some fm, Some nm) \<Rightarrow>
         (let k = next_oid c; c1 = c\<lparr>next_oid := Suc k\<rparr>;
              op = new_operation k r gm fm nm (clock c)
          in if receivers (view_of c w) r = None then (Inl ForeignKeyViolation, c1, w)
             else (Inr op, put_op k op c1 w))
     | (KeyInvalid, _) \<Rightarrow> (Inl InvalidParam, c, w)
     | (KeyNull, _) \<Rightarrow> (Inl ForeignKeyViolation, c, w)
     | _ \<Rightarrow> (Inl ValueRejected, c, w))"

text \<open>\<open>UPDATE operations SET status = $1 WHERE id = $2\<close>: no row matched is no error.\<close>

definition t_set_status :: "'r store_cfg \<Rightarrow> string \<Rightarrow> op_status \<Rightarrow> ('r, unit) table_op" where
  "t_set_status cfg t st c w = (case operation_key cfg t of
      KeyInvalid \<Rightarrow> (Inl InvalidParam, c, w)
    | KeyNull \<Rightarrow> (Inr (), c, w)
    | KeyOf k \<Rightarrow> (case operations (view_of c w) k of
        None \<Rightarrow> (Inr (), c, w)
      | Some op \<Rightarrow> (Inr (), put_op k (op\<lparr>op_status := st\<rparr>) c w)))"

text \<open>
  \<open>UPDATE receivers SET balance = balance + $1 WHERE id = $2\<close>, with the NUMERIC text
  and the receiver id of a row read before: exact decimal addition.
\<close>

definition t_add_balance :: "'r \<Rightarrow> money \<Rightarrow> ('r, unit) table_op" where
  "t_add_balance r x c w = (case receivers (view_of c w) r of
      None \<Rightarrow> (Inr (), c, w)
    | Some b \<Rightarrow> (Inr (), put_bal r (b + x) c w))"

section \<open>The queries on a connection\<close>

definition q_begin :: "('r, unit) query" where
  "q_begin = on_tables t_begin"

definition q_commit :: "('r, unit) query" where
  "q_commit = on_tables t_commit"

definition q_rollback :: "('r, unit) query" where
  "q_rollback = on_tables t_rollback"

definition q_receiver_exists :: "'r store_cfg \<Rightarrow> jsval \<Rightarrow> ('r, bool) query" where
  "q_receiver_exists cfg v = on_tables (t_receiver_exists cfg v)"

definition q_find_operation :: "'r store_cfg \<Rightarrow> string \<Rightarrow> ('r, 'r operation option) query" where
  "q_find_operation cfg t = on_tables (t_find_operation cfg t)"

definition q_insert_operation ::
  "'r store_cfg \<Rightarrow> jsval \<Rightarrow> jsnum \<Rightarrow> jsnum \<Rightarrow> jsnum \<Rightarrow> ('r, 'r operation) query" where
  "q_insert_operation cfg v g f n = on_tables (t_insert_operation cfg v g f n)"

definition q_set_status :: "'r store_cfg \<Rightarrow> string \<Rightarrow> op_status \<Rightarrow> ('r, unit) query" where
  "q_set_status cfg t st = on_tables (t_set_status cfg t st)"

definition q_add_balance :: "'r \<Rightarrow> money \<Rightarrow> ('r, unit) query" where
  "q_add_balance r x = on_tables (t_add_balance r x)"

section \<open>A PostgreSQL configuration\<close>

text \<open>
  One schema the route code runs against: \<open>SERIAL\<close> (\<open>integer\<close>) ids and NUMERIC
  amounts. The driver sends a parameter as text; the integer column skips white space
  around the text, reads an optional sign and decimal digits, and rejects other text and
  values out of the 32-bit range (the decimal syntax of \<open>int4in\<close>). A JavaScript number
  is sent as \<open>String(x)\<close>, the shortest decimal that reads back as the same number
  (section below); the column keeps that decimal's value and rejects \<open>NaN\<close> and the
  infinities.
\<close>

definition digit_val :: "char \<Rightarrow> nat option" where
  "digit_val c = (let n = (of_char c :: nat) in if 48 \<le> n \<and> n \<le> 57 then Some (n - 48) else None)"

fun digits_val :: "nat \<Rightarrow> string \<Rightarrow> nat option" where
  "digits_val acc [] = Some acc"
| "digits_val acc (c # cs) = (case digit_val c of None \<Rightarrow> None | Some d \<Rightarrow> digits_val (10 * acc + d) cs)"

definition pg_space :: "char \<Rightarrow> bool" where
  "pg_space c = ((of_char c :: nat) \<in> {9, 10, 11, 12, 13, 32})"

definition trim_spaces :: "string \<Rightarrow> string" where
  "trim_spaces t = rev (dropWhile pg_space (rev (dropWhile pg_space t)))"

definition parse_int4 :: "string \<Rightarrow> int option" where
  "parse_int4 t0 =
     (let t = trim_spaces t0;
          v = (case t of
                 [] \<Rightarrow> None
               | c # cs \<Rightarrow>
                   if c = CHR ''-'' \<and> cs \<noteq> [] then map_option (\<lambda>n. - int n) (digits_val 0 cs)
                   else if c = CHR ''+'' \<and> cs \<noteq> [] then map_option int (digits_val 0 cs)
                   else map_option int (digits_val 0 t))
      in case v of Some i \<Rightarrow> if \<bar>i\<bar> \<le> 2147483647 then Some i else None | None \<Rightarrow> None)"

fun int_key :: "int option \<Rightarrow> int key_param" where
  "int_key None = KeyInvalid"
| "int_key (Some i) = KeyOf i"

fun pg_receiver_key :: "jsval \<Rightarrow> int key_param" where
  "pg_receiver_key JUndefined = KeyNull"
| "pg_receiver_key JNull = KeyNull"
| "pg_receiver_key (JString t) = int_key (parse_int4 t)"
| "pg_receiver_key (JNumber (Fin m e)) =
     (if 0 \<le> e \<and> \<bar>m * 2 ^ nat e\<bar> \<le> 2147483647 then KeyOf (m * 2 ^ nat e) else KeyInvalid)"
| "pg_receiver_key _ = KeyInvalid"

definition pg_operation_key :: "string \<Rightarrow> oid key_param" where
  "pg_operation_key t = (case parse_int4 t of
      None \<Rightarrow> KeyInvalid
    | Some i \<Rightarrow> if 0 \<le> i then KeyOf (nat i) else KeyNull)"

section \<open>Ids in URLs\<close>

text \<open>
  The decimal text of an id, as a client writes the \<open>id\<close> of a JSON response into the
  path of \<open>GET /operations/:id\<close>; \<open>parse_int4\<close> reads it back for every id in the
  range of \<open>integer\<close>. The recursion is on \<open>n div 10\<close>, so its termination is proved
  with the measure \<open>id\<close>.
\<close>

function dec_string :: "nat \<Rightarrow> string" where
  "dec_string n = (if n < 10 then [char_of (48 + n)] else dec_string (n div 10) @ [char_of (48 + n mod 10)])"
  by pat_completeness auto
termination by (relation "measure id") auto

declare dec_string.simps [simp del]

lemma digit_val_char: "d < 10 \<Longrightarrow> digit_val (char_of (48 + d)) = Some d"
  by (simp add: digit_val_def Let_def of_char_of)

lemma digits_val_append:
  "digits_val acc (xs @ ys) = (case digits_val acc xs of None \<Rightarrow> None | Some a \<Rightarrow> digits_val a ys)"
  by (induction acc xs rule: digits_val.induct) (simp_all split: option.splits)

lemma digits_val_dec: "digits_val acc (dec_string n) = Some (acc * 10 ^ length (dec_string n) + n)"
proof (induction n arbitrary: acc rule: dec_string.induct)
  case (1 n)
  show ?case
  proof (cases "n < 10")
    case True
    then show ?thesis by (simp add: dec_string.simps [of n] digit_val_char)
  next
    case False
    then have "dec_string n = dec_string (n div 10) @ [char_of (48 + n mod 10)]"
      by (simp add: dec_string.simps [of n])
    with 1 [OF False] False show ?thesis
      by (simp add: digits_val_append digit_val_char algebra_simps)
  qed
qed

lemma dec_string_hd: "\<exists>(d::nat) cs. d < 10 \<and> dec_string n = char_of (48 + d) # cs"
proof (induction n rule: dec_string.induct)
  case (1 n)
  show ?case
  proof (cases "n < 10")
    case True
    then have "dec_string n = char_of (48 + n) # []" by (simp add: dec_string.simps [of n])
    with True show ?thesis by blast
  next
    case False
    with 1 obtain d :: nat and cs where "d < 10" "dec_string (n div 10) = char_of (48 + d) # cs" by blast
    with False have "dec_string n = char_of (48 + d) # (cs @ [char_of (48 + n mod 10)])"
      by (simp add: dec_string.simps [of n])
    with \<open>d < 10\<close> show ?thesis by blast
  qed
qed

lemma dec_string_digits: "c \<in> set (dec_string n) \<Longrightarrow> \<exists>d :: nat. d < 10 \<and> c = char_of (48 + d)"
proof (induction n rule: dec_string.induct)
  case (1 n)
  show ?case
  proof (cases "n < 10")
    case True
    with "1.prems" show ?thesis by (auto simp add: dec_string.simps [of n])
  next
    case False
    with "1.prems" have "c \<in> set (dec_string (n div 10)) \<or> c = char_of (48 + n mod 10)"
      by (auto simp add: dec_string.simps [of n])
    then show ?thesis
    proof
      assume "c \<in> set (dec_string (n div 10))"
      with "1.IH" False show ?thesis by blast
    next
      assume "c = char_of (48 + n mod 10)"
      then show ?thesis by (intro exI [of _ "n mod 10"]) simp
    qed
  qed
qed

lemma trim_spaces_dec: "trim_spaces (dec_string n) = dec_string n"
proof -
  have "\<forall>c \<in> set (dec_string n). \<not> pg_space c"
  proof
    fix c assume "c \<in> set (dec_string n)"
    then obtain d :: nat where "d < 10" "c = char_of (48 + d)" using dec_string_digits by blast
    then show "\<not> pg_space c" by (auto simp add: pg_space_def of_char_of)
  qed
  then show ?thesis by (simp add: trim_spaces_def dropWhile_all_not)
qed

lemma parse_int4_dec: "n \<le> 2147483647 \<Longrightarrow> parse_int4 (dec_string n) = Some (int n)"
proof -
  assume n: "n \<le> 2147483647"
  obtain d :: nat and cs where d: "d < 10" "dec_string n = char_of (48 + d) # cs" using dec_string_hd by blast
  have "of_char (char_of (48 + d)) = 48 + d" using d(1) by (simp add: of_char_of)
  then have "char_of (48 + d) \<noteq> CHR ''-''" "char_of (48 + d) \<noteq> CHR ''+''"
    by (auto dest: arg_cong [of _ _ "of_char :: char \<Rightarrow> nat"])
  with d n show ?thesis using digits_val_dec [of 0 n] trim_spaces_dec [of n]
    by (simp add: parse_int4_def)
qed

lemma dec_string_1: "dec_string (Suc 0) = ''1''"
  by (simp add: dec_string.simps char_of_def bit_0)

lemma pg_operation_key_dec: "k \<le> 2147483647 \<Longrightarrow> pg_operation_key (dec_string k) = KeyOf k"
  by (simp add: pg_operation_key_def parse_int4_dec)

section \<open>Amounts as the driver sends them\<close>

text \<open>
  \<open>node-postgres\<close> sends a number parameter as \<open>String(x)\<close> (ECMAScript
  \<open>Number::toString\<close>): the decimal \<open>s \<cdot> 10 ^ t\<close> with the fewest significant digits
  whose nearest double is \<open>x\<close>, and of those the one closest to \<open>x\<close>, the even \<open>s\<close> on a
  tie. \<open>flog10 a b\<close> is the decimal exponent of \<open>a / b\<close> (from the digit counts, then
  one comparison); \<open>str_at\<close> tries the \<open>k\<close>-digit decimals just below and above
  \<open>x\<close>, the only \<open>k\<close>-digit candidates closest to it; the search runs over 1 to 17
  digits, which always suffice for a double (the exact value is kept should none be
  found). The NUMERIC column stores the decimal's value exactly.
\<close>

definition ge_pow10 :: "int \<Rightarrow> int \<Rightarrow> int \<Rightarrow> bool" where
  "ge_pow10 a b k = (if 0 \<le> k then b * 10 ^ nat k \<le> a else b \<le> a * 10 ^ nat (- k))"

definition flog10 :: "int \<Rightarrow> int \<Rightarrow> int" where
  "flog10 a b = (let d = int (length (dec_string (nat a))) - int (length (dec_string (nat b)))
                 in if ge_pow10 a b d then d else d - 1)"

definition str_at :: "jsnum \<Rightarrow> int \<Rightarrow> int \<Rightarrow> int \<Rightarrow> int \<Rightarrow> nat \<Rightarrow> rat option" where
  "str_at x sg a b q k =
     (let t = q - int k + 1;
          num = (if t \<le> 0 then a * 10 ^ nat (- t) else a);
          den = (if t \<le> 0 then b else b * 10 ^ nat t);
          lo = num div den;
          ok = (\<lambda>s. dec_float (sg * s) t = x);
          pick = (\<lambda>s. Some (of_int (sg * s) * pow10 t))
      in if num mod den = 0 then (if ok lo then pick lo else None)
         else if ok lo \<and> ok (lo + 1) then
           pick (if 2 * num < (2 * lo + 1) * den \<or> 2 * num = (2 * lo + 1) * den \<and> even lo
                 then lo else lo + 1)
         else if ok lo then pick lo
         else if ok (lo + 1) then pick (lo + 1)
         else None)"

definition js_string_value :: "jsnum \<Rightarrow> rat" where
  "js_string_value x = (case x of
     Fin m e \<Rightarrow>
       if m = 0 then 0
       else (let a = \<bar>m\<bar> * 2 ^ nat e; b = 2 ^ nat (- e) in
             case first_some (str_at x (sgn m) a b (flog10 a b)) [1..<18] of
               Some d \<Rightarrow> d
             | None \<Rightarrow> fin_val m e)
   | _ \<Rightarrow> 0)"

fun pg_money_in :: "jsnum \<Rightarrow> money option" where
  "pg_money_in (Fin m e) = Some (js_string_value (Fin m e))"
| "pg_money_in _ = None"

definition pg_cfg :: "int store_cfg" where
  "pg_cfg = \<lparr>receiver_key = pg_receiver_key, operation_key = pg_operation_key,
             money_in = pg_money_in\<rparr>"

lemmas str_at_defs = str_at_def pow10_def dec_float_def Let_def

text \<open>Evaluating the decimal of a given number: its exponent, then the digits tried.\<close>

lemma pg_money_in_at:
  assumes "m \<noteq> 0" "flog10 (\<bar>m\<bar> * 2 ^ nat e) (2 ^ nat (- e)) = q"
    "first_some (str_at (Fin m e) (sgn m) (\<bar>m\<bar> * 2 ^ nat e) (2 ^ nat (- e)) q) [1..<18] = Some d"
  shows "pg_money_in (Fin m e) = Some d"
  using assms by (simp add: js_string_value_def Let_def)

lemma upt_18: "[Suc 0..<18] = [Suc 0, 2, 3, 4, 5, 6, 7, 8, 9, 10, 11, 12, 13, 14, 15, 16, 17 :: nat]"
  by (simp add: upt_rec)

lemma pg_money_in_examples:
  "pg_money_in (Fin 25 2) = Some 100" "pg_money_in (Fin 3 0) = Some 3" "pg_money_in (Fin 97 0) = Some 97"
proof -
  have "flog10 (\<bar>25\<bar> * 2 ^ nat 2) (2 ^ nat (- 2)) = 2" "flog10 (\<bar>3\<bar> * 2 ^ nat 0) (2 ^ nat (- 0)) = 0"
    "flog10 (\<bar>97\<bar> * 2 ^ nat 0) (2 ^ nat (- 0)) = 1"
    by (simp_all add: flog10_def ge_pow10_def dec_string.simps)
  moreover have "str_at (Fin 25 2) 1 100 1 2 1 = Some 100" "str_at (Fin 3 0) 1 3 1 0 1 = Some 3"
    "str_at (Fin 97 0) 1 97 1 1 1 = None" "str_at (Fin 97 0) 1 97 1 1 2 = Some 97"
    by (simp_all add: str_at_defs js_eval)
  ultimately show "pg_money_in (Fin 25 2) = Some 100" "pg_money_in (Fin 3 0) = Some 3"
    "pg_money_in (Fin 97 0) = Some 97"
    by (auto intro!: pg_money_in_at simp del: pg_money_in.simps simp add: upt_18)
qed

text \<open>The doubles \<open>0.01\<close>, \<open>0.01 * 0.03\<close> and \<open>0.01 - 0.01 * 0.03\<close> go out as \<open>0.01\<close>, \<open>0.0003\<close>, \<open>0.0097\<close>.\<close>

lemma pg_money_in_cent:
  "pg_money_in (Fin 5764607523034235 (- 59)) = Some (1 / 100)"
  "pg_money_in (Fin 5534023222112865 (- 64)) = Some (3 / 10000)"
  "pg_money_in (Fin 698958662167901 (- 56)) = Some (97 / 10000)"
proof -
  have "flog10 (\<bar>5764607523034235\<bar> * 2 ^ nat (- 59)) (2 ^ nat (- (- 59))) = - 2"
    "flog10 (\<bar>5534023222112865\<bar> * 2 ^ nat (- 64)) (2 ^ nat (- (- 64))) = - 4"
    "flog10 (\<bar>698958662167901\<bar> * 2 ^ nat (- 56)) (2 ^ nat (- (- 56))) = - 3"
    by (simp_all add: flog10_def ge_pow10_def dec_string.simps)
  moreover have
    "str_at (Fin 5764607523034235 (- 59)) 1 5764607523034235 576460752303423488 (- 2) 1 = Some (1 / 100)"
    "str_at (Fin 5534023222112865 (- 64)) 1 5534023222112865 18446744073709551616 (- 4) 1 = Some (3 / 10000)"
    "str_at (Fin 698958662167901 (- 56)) 1 698958662167901 72057594037927936 (- 3) 1 = None"
    "str_at (Fin 698958662167901 (- 56)) 1 698958662167901 72057594037927936 (- 3) 2 = Some (97 / 10000)"
    by (simp_all add: str_at_defs js_eval)
  ultimately show "pg_money_in (Fin 5764607523034235 (- 59)) = Some (1 / 100)"
    "pg_money_in (Fin 5534023222112865 (- 64)) = Some (3 / 10000)"
    "pg_money_in (Fin 698958662167901 (- 56)) = Some (97 / 10000)"
    by (auto intro!: pg_money_in_at simp del: pg_money_in.simps simp add: upt_18)
qed

end
