(* ===== verification/Store_Logic.thy ===== *)
theory Store_Logic
  imports Ledger
begin

text \<open>
  Hoare triples over the store's queries. An assertion speaks of the committed tables and
  of the open transaction's buffer only, never of the fault list: so a triple holds for
  every pattern of failing queries, and the rule for \<open>guarded\<close> says that a failed query
  changes nothing an assertion can see. Each query has a rule in weakest-precondition
  form (its precondition computed from an arbitrary postcondition), so that the triple
  of a handler follows by applying the rules backwards through its \<open>qbind\<close>s.
\<close>

type_synonym 'r assn = "'r ledger \<Rightarrow> 'r wbuf option \<Rightarrow> bool"

definition qvalid :: "'r assn \<Rightarrow> ('r, 'a) query \<Rightarrow> (exn + 'a \<Rightarrow> 'r assn) \<Rightarrow> bool" where
  "qvalid P q Q \<longleftrightarrow>
     (\<forall>s. P (committed s) (txn s) \<longrightarrow> (case q s of (x, s') \<Rightarrow> Q x (committed s') (txn s')))"

lemma qvalidI:
  "(\<And>s x s'. P (committed s) (txn s) \<Longrightarrow> q s = (x, s') \<Longrightarrow> Q x (committed s') (txn s')) \<Longrightarrow>
   qvalid P q Q"
  by (auto simp: qvalid_def split: prod.splits)

lemma qvalidD:
  "qvalid P q Q \<Longrightarrow> P (committed s) (txn s) \<Longrightarrow> q s = (x, s') \<Longrightarrow> Q x (committed s') (txn s')"
  by (auto simp: qvalid_def split: prod.splits)

section \<open>Structural rules\<close>

lemma qvalid_weaken: "qvalid P' q Q \<Longrightarrow> (\<And>c w. P c w \<Longrightarrow> P' c w) \<Longrightarrow> qvalid P q Q"
  by (auto simp: qvalid_def)

lemma qvalid_strengthen:
  "qvalid P q Q' \<Longrightarrow> (\<And>x c w. Q' x c w \<Longrightarrow> Q x c w) \<Longrightarrow> qvalid P q Q"
  by (fastforce simp: qvalid_def split: prod.splits)

lemma qvalid_bind:
  assumes "\<And>a. qvalid (R a) (f a) Q"
    and "qvalid P m (\<lambda>x c w. case x of Inl e \<Rightarrow> Q (Inl e) c w | Inr a \<Rightarrow> R a c w)"
  shows "qvalid P (qbind m f) Q"
proof (rule qvalidI)
  fix s x s'
  assume P: "P (committed s) (txn s)" and run: "qbind m f s = (x, s')"
  obtain y s1 where m: "m s = (y, s1)" by fastforce
  with assms(2) P have post: "case y of Inl e \<Rightarrow> Q (Inl e) (committed s1) (txn s1)
      | Inr a \<Rightarrow> R a (committed s1) (txn s1)"
    by (rule qvalidD)
  show "Q x (committed s') (txn s')"
  proof (cases y)
    case (Inl e)
    with m run post show ?thesis by (simp add: qbind_def)
  next
    case (Inr a)
    with m run have "f a s1 = (x, s')" by (simp add: qbind_def)
    with assms(1) post Inr show ?thesis by (auto dest: qvalidD)
  qed
qed

lemma qvalid_return: "qvalid (Q (Inr a)) (qreturn a) Q"
  by (simp add: qvalid_def qreturn_def)

lemma qvalid_throw: "qvalid (Q (Inl e)) (qthrow e) Q"
  by (simp add: qvalid_def qthrow_def)

lemma qvalid_if:
  "qvalid P1 a Q \<Longrightarrow> qvalid P2 b Q \<Longrightarrow>
   qvalid (\<lambda>c w. (g \<longrightarrow> P1 c w) \<and> (\<not> g \<longrightarrow> P2 c w)) (if g then a else b) Q"
  by (auto simp: qvalid_def)

lemma qvalid_case_option:
  "qvalid P1 a Q \<Longrightarrow> (\<And>v. qvalid (P2 v) (b v) Q) \<Longrightarrow>
   qvalid (\<lambda>c w. (x = None \<longrightarrow> P1 c w) \<and> (\<forall>v. x = Some v \<longrightarrow> P2 v c w))
     (case x of None \<Rightarrow> a | Some v \<Rightarrow> b v) Q"
  by (cases x) (auto simp: qvalid_def)

lemma qvalid_catch:
  assumes "\<And>e. qvalid (R e) (h e) Q"
    and "qvalid P m (\<lambda>x c w. case x of Inl e \<Rightarrow> R e c w | Inr a \<Rightarrow> Q (Inr a) c w)"
  shows "qvalid P (qcatch m h) Q"
proof (rule qvalidI)
  fix s x s'
  assume P: "P (committed s) (txn s)" and run: "qcatch m h s = (x, s')"
  obtain y s1 where m: "m s = (y, s1)" by fastforce
  with assms(2) P have post: "case y of Inl e \<Rightarrow> R e (committed s1) (txn s1)
      | Inr a \<Rightarrow> Q (Inr a) (committed s1) (txn s1)"
    by (rule qvalidD)
  show "Q x (committed s') (txn s')"
  proof (cases y)
    case (Inl e)
    with m run have "h e s1 = (x, s')" by (simp add: qcatch_def)
    with assms(1) post Inl show ?thesis by (auto dest: qvalidD)
  next
    case (Inr a)
    with m run post show ?thesis by (auto simp: qcatch_def)
  qed
qed

lemma qvalid_finally_release:
  "qvalid P m (\<lambda>x c w. Q x c None) \<Longrightarrow> qvalid P (qfinally m release) Q"
  by (fastforce simp: qvalid_def qfinally_def release_def split: prod.splits)

lemma qvalid_guarded:
  assumes "qvalid P q Q"
  shows "qvalid (\<lambda>c w. Q (Inl ConnectionFault) c w \<and> P c w) (guarded q) Q"
proof (rule qvalidI)
  fix s x s'
  assume P: "Q (Inl ConnectionFault) (committed s) (txn s) \<and> P (committed s) (txn s)"
    and run: "guarded q s = (x, s')"
  obtain b fs where tf: "take_fault (faults s) = (b, fs)" by fastforce
  show "Q x (committed s') (txn s')"
  proof (cases b)
    case True
    with tf run P show ?thesis by (auto simp: guarded_def)
  next
    case False
    with tf run have "q (s\<lparr>faults := fs\<rparr>) = (x, s')" by (simp add: guarded_def)
    moreover from P have "P (committed (s\<lparr>faults := fs\<rparr>)) (txn (s\<lparr>faults := fs\<rparr>))" by simp
    ultimately show ?thesis using qvalidD [OF assms] by blast
  qed
qed

section \<open>The queries\<close>

lemma qvalid_on_tables:
  "qvalid (\<lambda>c w. Q (Inl ConnectionFault) c w \<and> (case f c w of (x, c', w') \<Rightarrow> Q x c' w'))
     (on_tables f) Q"
  unfolding on_tables_def
  by (rule qvalid_guarded) (auto simp: qvalid_def split: prod.splits)

lemma qvalid_connect: "qvalid (\<lambda>c w. Q (Inl ConnectionFault) c w \<and> Q (Inr ()) c w) q_connect Q"
  unfolding q_connect_def
  by (rule qvalid_guarded) (simp add: qvalid_def qreturn_def)

lemmas query_defs = q_begin_def q_commit_def q_rollback_def q_receiver_exists_def
  q_find_operation_def q_insert_operation_def q_set_status_def q_add_balance_def

lemmas qvalid_rules = qvalid_bind qvalid_finally_release qvalid_catch qvalid_on_tables
  qvalid_connect qvalid_return qvalid_throw qvalid_if qvalid_case_option

lemmas table_defs = t_begin_def t_commit_def t_rollback_def t_find_operation_def t_set_status_def
  t_add_balance_def t_receiver_exists_def t_insert_operation_def view_of_def put_op_def put_bal_def
  apply_wbuf_def empty_wbuf_def

end
