(* ===== verification/Operations.thy ===== *)
theory Operations
  imports Store_Logic
begin

text \<open>
  The Operation Service: the three route handlers of \<open>src/routes/operations.js\<close>
  (\<open>POST /operations\<close>, \<open>GET /operations/:id\<close>, \<open>POST /operations/:id/confirm\<close>), each
  a function from the request's fields and the store to the response and the new store.
  The handler's checks and early returns are the branches of the definitions, in the
  source's order; every query goes through the store of \<open>Ledger\<close>, so that each may fail.
  A handler that throws outside its \<open>try\<close> (the \<open>db.connect()\<close> of the confirm route, or
  the \<open>ROLLBACK\<close> of its \<open>catch\<close>) leaves an unhandled rejection and sends no
  response: \<open>NoReply\<close>.
\<close>

section \<open>Responses\<close>

definition FEE_PERCENTAGE :: jsnum where
  "FEE_PERCENTAGE = js_decimal 3 2"

text \<open>The messages of the source's responses (Portuguese in the source), by their role.\<close>

datatype message =
    MsgMissingFields | MsgGrossNotPositive | MsgReceiverNotFound | MsgCreateFailed
  | MsgAwaitingConfirmation | MsgOperationNotFound | MsgFetchFailed
  | MsgAlreadyConfirmed | MsgConfirmed | MsgConfirmFailed

record 'r op_json =
  j_id :: oid
  j_receiver :: 'r
  j_gross :: jsnum
  j_fee :: jsnum
  j_net :: jsnum
  j_status :: op_status
  j_created :: nat

datatype 'r body = ErrorBody message | OpBody "'r op_json" | MessageOpBody message "'r op_json"

datatype 'r response = Reply nat "'r body" | NoReply

text \<open>The JSON of an operation row: NUMERIC columns come back as text, read by \<open>parseFloat\<close>.\<close>

definition op_json_of :: "'r operation \<Rightarrow> 'r op_json" where
  "op_json_of op =
     \<lparr>j_id = op_id op, j_receiver = op_receiver op, j_gross = parse_float (op_gross op),
      j_fee = parse_float (op_fee op), j_net = parse_float (op_net op),
      j_status = op_status op, j_created = op_created op\<rparr>"

section \<open>POST /operations\<close>

text \<open>Lines 39--40: \<open>fee = gross_value * FEE_PERCENTAGE\<close>, \<open>net_value = gross_value - fee\<close>.\<close>

definition fee_of :: "jsnum \<Rightarrow> jsnum" where
  "fee_of g = js_mul g FEE_PERCENTAGE"

definition net_of :: "jsnum \<Rightarrow> jsnum" where
  "net_of g = js_sub g (fee_of g)"

text \<open>Lines 25--68, the \<open>try\<close> block, once the fields have passed validation.\<close>

definition create_try :: "'r store_cfg \<Rightarrow> jsval \<Rightarrow> jsnum \<Rightarrow> ('r, 'r operation option) query" where
  "create_try cfg rid g =
     qbind (q_receiver_exists cfg rid) (\<lambda>found.
       if \<not> found then qreturn None
       else qbind (q_insert_operation cfg rid g (fee_of g) (net_of g)) (\<lambda>op. qreturn (Some op)))"

definition create_operation :: "'r store_cfg \<Rightarrow> jsval \<Rightarrow> jsval \<Rightarrow> 'r store \<Rightarrow> 'r response \<times> 'r store" where
  "create_operation cfg rid gv s =
     (if \<not> js_truthy rid \<or> \<not> js_truthy gv then (Reply 400 (ErrorBody MsgMissingFields), s)
      else case gv of
        JNumber g \<Rightarrow>
          if js_le g (Fin 0 0) then (Reply 400 (ErrorBody MsgGrossNotPositive), s)
          else (case create_try cfg rid g s of
              (Inl _, s') \<Rightarrow> (Reply 500 (ErrorBody MsgCreateFailed), s')
            | (Inr None, s') \<Rightarrow> (Reply 404 (ErrorBody MsgReceiverNotFound), s')
            | (Inr (Some op), s') \<Rightarrow>
                (Reply 201 (MessageOpBody MsgAwaitingConfirmation (op_json_of op)), s'))
      | _ \<Rightarrow> (Reply 400 (ErrorBody MsgGrossNotPositive), s))"

section \<open>GET /operations/:id\<close>

definition get_operation :: "'r store_cfg \<Rightarrow> string \<Rightarrow> 'r store \<Rightarrow> 'r response \<times> 'r store" where
  "get_operation cfg t s =
     (case q_find_operation cfg t s of
        (Inl _, s') \<Rightarrow> (Reply 500 (ErrorBody MsgFetchFailed), s')
      | (Inr None, s') \<Rightarrow> (Reply 404 (ErrorBody MsgOperationNotFound), s')
      | (Inr (Some op), s') \<Rightarrow> (Reply 200 (OpBody (op_json_of op)), s'))"

section \<open>POST /operations/:id/confirm\<close>

text \<open>Lines 113--174, the \<open>try\<close> block on the dedicated client.\<close>

definition confirm_try :: "'r store_cfg \<Rightarrow> string \<Rightarrow> ('r, 'r response) query" where
  "confirm_try cfg t =
     qbind q_begin (\<lambda>_.
     qbind (q_find_operation cfg t) (\<lambda>found.
       case found of
         None \<Rightarrow> qbind q_rollback (\<lambda>_. qreturn (Reply 404 (ErrorBody MsgOperationNotFound)))
       | Some op \<Rightarrow>
           if op_status op = Confirmed
           then qbind q_rollback (\<lambda>_. qreturn (Reply 400 (ErrorBody MsgAlreadyConfirmed)))
           else
             qbind (q_set_status cfg t Confirmed) (\<lambda>_.
             qbind (q_add_balance (op_receiver op) (op_net op)) (\<lambda>_.
             qbind q_commit (\<lambda>_.
             qbind (q_find_operation cfg t) (\<lambda>again.
               case again of
                 None \<Rightarrow> qthrow TypeError
               | Some op' \<Rightarrow> qreturn (Reply 200 (MessageOpBody MsgConfirmed (op_json_of op')))))))))"

text \<open>
  Lines 108--184: acquire the client (outside the \<open>try\<close>), run the \<open>try\<close> block; the
  \<open>catch\<close> rolls back and answers 500, and \<open>finally\<close> releases the client. An exception
  that escapes (from \<open>db.connect()\<close>, or from the \<open>ROLLBACK\<close> of the \<open>catch\<close>) is an
  unhandled rejection: no response is sent.
\<close>

definition confirm_handler :: "'r store_cfg \<Rightarrow> string \<Rightarrow> ('r, 'r response) query" where
  "confirm_handler cfg t =
     qbind q_connect (\<lambda>_.
       qfinally
         (qcatch (confirm_try cfg t)
            (\<lambda>_. qbind q_rollback (\<lambda>_. qreturn (Reply 500 (ErrorBody MsgConfirmFailed)))))
         release)"

fun reply_of :: "exn + 'r response \<Rightarrow> 'r response" where
  "reply_of (Inl _) = NoReply"
| "reply_of (Inr r) = r"

definition confirm_operation :: "'r store_cfg \<Rightarrow> string \<Rightarrow> 'r store \<Rightarrow> 'r response \<times> 'r store" where
  "confirm_operation cfg t s = (case confirm_handler cfg t s of (x, s') \<Rightarrow> (reply_of x, s'))"

section \<open>What the handlers promise\<close>

text \<open>
  The effect of confirming the operation \<open>op\<close> stored under \<open>k\<close>: its status becomes
  \<open>confirmed\<close> and its receiver's balance grows by its net value (spec.md 4.1, steps 4--5).
\<close>

definition confirm_effect :: "oid \<Rightarrow> 'r operation \<Rightarrow> 'r ledger \<Rightarrow> 'r ledger" where
  "confirm_effect k op l =
     l\<lparr>operations := (operations l)(k \<mapsto> op\<lparr>op_status := Confirmed\<rparr>),
       receivers := (case receivers l (op_receiver op) of None \<Rightarrow> receivers l
          | Some b \<Rightarrow> (receivers l)(op_receiver op \<mapsto> b + op_net op))\<rparr>"

text \<open>
  The effect of inserting the operation \<open>op\<close> under the next id \<open>k\<close>, and the tables
  the create route may leave: those of an insert for an existing receiver, with the
  values the store reads from the gross value, the fee and the net value.
\<close>

definition insert_effect :: "oid \<Rightarrow> 'r operation \<Rightarrow> 'r ledger \<Rightarrow> 'r ledger" where
  "insert_effect k op c = c\<lparr>next_oid := Suc k, operations := (operations c)(k \<mapsto> op)\<rparr>"

definition inserted :: "'r store_cfg \<Rightarrow> jsval \<Rightarrow> jsnum \<Rightarrow> 'r ledger \<Rightarrow> 'r ledger \<Rightarrow> bool" where
  "inserted cfg rid g c0 c \<longleftrightarrow> (\<exists>r gm fm nm. receiver_key cfg rid = KeyOf r \<and> receivers c0 r \<noteq> None \<and>
     money_in cfg g = Some gm \<and> money_in cfg (fee_of g) = Some fm \<and> money_in cfg (net_of g) = Some nm \<and>
     c = insert_effect (next_oid c0) (new_operation (next_oid c0) r gm fm nm (clock c0)) c0)"

text \<open>Line 19: the gross value is rejected when it is no number or \<open>gross_value <= 0\<close>.\<close>

fun gross_rejected :: "jsval \<Rightarrow> bool" where
  "gross_rejected (JNumber g) = js_le g (Fin 0 0)"
| "gross_rejected _ = True"

section \<open>Examples\<close>

text \<open>
  The scenario of spec.md section 8 on \<open>pg_cfg\<close>: receiver 1 with balance 0, and the
  operation the create route stores for a gross value of 100 (fee 3, net 97).
\<close>

definition store_of :: "'r ledger \<Rightarrow> bool list \<Rightarrow> 'r store" where
  "store_of l fs = \<lparr>committed = l, txn = None, faults = fs\<rparr>"

definition demo_ledger :: "int ledger" where
  "demo_ledger = \<lparr>receivers = [1 \<mapsto> 0], operations = Map.empty, next_oid = 1, clock = 0\<rparr>"

definition demo_pending :: "int ledger" where
  "demo_pending = demo_ledger\<lparr>operations := [1 \<mapsto> new_operation 1 1 100 3 97 0], next_oid := 2\<rparr>"

definition demo_confirmed :: "int ledger" where
  "demo_confirmed = confirm_effect 1 (new_operation 1 1 100 3 97 0) demo_pending"

section \<open>POST /operations/:id/confirm: atomicity and the one-shot guard\<close>

lemma confirm_handler_valid:
  "qvalid (\<lambda>c w. w = None \<and> c = c0) (confirm_handler cfg t)
     (\<lambda>x c w. w = None \<and>
        (c = c0 \<and> (\<forall>b. x \<noteq> Inr (Reply 200 b)) \<or>
         (\<exists>k op. operation_key cfg t = KeyOf k \<and> operations c0 k = Some op \<and>
            op_status op = Pending \<and> c = confirm_effect k op c0)))"
  unfolding confirm_handler_def confirm_try_def query_defs
  apply (rule qvalid_weaken)
   apply (rule qvalid_rules)+
  apply (auto simp: table_defs confirm_effect_def split: key_param.splits option.splits)
  done

lemmas confirm_run_defs = confirm_operation_def confirm_handler_def confirm_try_def query_defs qbind_def
  qreturn_def qcatch_def qfinally_def release_def on_tables_def guarded_def q_connect_def

lemma confirm_operation_run:
  "confirm_operation cfg t s = (r, s') \<Longrightarrow> \<exists>x. confirm_handler cfg t s = (x, s') \<and> r = reply_of x"
  by (auto simp: confirm_operation_def split: prod.splits)

text \<open>C1: Whatever queries fail, confirming an operation either leaves the committed tables as they were (and then answers no 200), or applies exactly the confirmation of a pending operation: its status becomes confirmed and its receiver's balance grows by its net value, together; no transaction is left open.\<close>

theorem confirm_atomic:
  assumes "txn s = None" and "confirm_operation cfg t s = (r, s')"
  shows "txn s' = None \<and>
    (committed s' = committed s \<and> (\<forall>b. r \<noteq> Reply 200 b) \<or>
     (\<exists>k op. operation_key cfg t = KeyOf k \<and> operations (committed s) k = Some op \<and>
        op_status op = Pending \<and> committed s' = confirm_effect k op (committed s)))"
proof -
  from assms(2) obtain x where run: "confirm_handler cfg t s = (x, s')" and r: "r = reply_of x"
    by (blast dest: confirm_operation_run)
  have "(\<forall>b. x \<noteq> Inr (Reply 200 b)) \<Longrightarrow> (\<forall>b. r \<noteq> Reply 200 b)"
    using r by (cases x) auto
  with qvalidD [OF confirm_handler_valid [of "committed s" cfg t] _ run] assms(1)
  show ?thesis by blast
qed

text \<open>C2: With no failing query, confirming a pending operation answers 200 with the operation marked confirmed, and commits exactly the status change and the credit of its net value to its receiver.\<close>

theorem confirm_pending_ok:
  assumes "txn s = None" "faults s = []" "operation_key cfg t = KeyOf k"
    "operations (committed s) k = Some op" "op_status op = Pending"
  shows "confirm_operation cfg t s =
    (Reply 200 (MessageOpBody MsgConfirmed (op_json_of (op\<lparr>op_status := Confirmed\<rparr>))),
     s\<lparr>committed := confirm_effect k op (committed s)\<rparr>)"
  using assms
  by (simp add: confirm_run_defs table_defs confirm_effect_def split: option.splits)

lemma confirm_handler_confirmed_valid:
  assumes "operation_key cfg t = KeyOf k" "operations c0 k = Some op" "op_status op = Confirmed"
  shows "qvalid (\<lambda>c w. w = None \<and> c = c0) (confirm_handler cfg t)
     (\<lambda>x c w. w = None \<and> c = c0 \<and>
        x \<in> {Inr (Reply 400 (ErrorBody MsgAlreadyConfirmed)), Inr (Reply 500 (ErrorBody MsgConfirmFailed))}
          \<union> range Inl)"
  unfolding confirm_handler_def confirm_try_def query_defs
  apply (rule qvalid_weaken)
   apply (rule qvalid_rules)+
  using assms apply (auto simp: table_defs)
  done

text \<open>C3: Confirming an operation that is already confirmed never changes the committed tables, whatever queries fail: the answer is the 400 already-confirmed rejection, a 500, or no answer.\<close>

theorem confirm_already_confirmed:
  assumes "txn s = None" "operation_key cfg t = KeyOf k" "operations (committed s) k = Some op"
    "op_status op = Confirmed" "confirm_operation cfg t s = (r, s')"
  shows "committed s' = committed s \<and> txn s' = None \<and>
    r \<in> {Reply 400 (ErrorBody MsgAlreadyConfirmed), Reply 500 (ErrorBody MsgConfirmFailed), NoReply}"
proof -
  from assms(5) obtain x where run: "confirm_handler cfg t s = (x, s')" and r: "r = reply_of x"
    by (blast dest: confirm_operation_run)
  from qvalidD [OF confirm_handler_confirmed_valid [OF assms(2-4)] _ run] assms(1)
  show ?thesis using r by auto
qed

text \<open>C25: With no failing query, confirming an already confirmed operation answers 400 already-confirmed and leaves the store exactly as it was.\<close>

theorem confirm_confirmed_fault_free:
  assumes "txn s = None" "faults s = []" "operation_key cfg t = KeyOf k"
    "operations (committed s) k = Some op" "op_status op = Confirmed"
  shows "confirm_operation cfg t s = (Reply 400 (ErrorBody MsgAlreadyConfirmed), s)"
  using assms
  by (simp add: confirm_run_defs table_defs)

text \<open>C31: If acquiring the dedicated client fails, the confirm route sends no response at all (the rejection of db.connect() is outside the try) and changes nothing but the fault list.\<close>

theorem confirm_connect_fault:
  "faults s = True # fs \<Longrightarrow> confirm_operation cfg t s = (NoReply, s\<lparr>faults := fs\<rparr>)"
  by (simp add: confirm_operation_def confirm_handler_def qbind_def q_connect_def guarded_def)

text \<open>C30: If every query of the confirmation succeeds up to the commit and the re-read after the commit fails, the route answers 500 although the confirmation and the credit are committed.\<close>

theorem confirm_reread_fault:
  assumes "txn s = None" "faults s = [False, False, False, False, False, False, True]"
    "operation_key cfg t = KeyOf k" "operations (committed s) k = Some op" "op_status op = Pending"
  shows "confirm_operation cfg t s =
    (Reply 500 (ErrorBody MsgConfirmFailed),
     s\<lparr>committed := confirm_effect k op (committed s), faults := []\<rparr>)"
  using assms
  by (simp add: confirm_run_defs table_defs confirm_effect_def split: option.splits)

section \<open>POST /operations: validation, receiver check, insert\<close>

text \<open>C26: A create request whose receiver_id or gross_value is falsy is answered 400 missing-fields before any store access: the store, fault list included, is unchanged.\<close>

theorem create_missing_fields:
  "\<not> js_truthy rid \<or> \<not> js_truthy gv \<Longrightarrow>
   create_operation cfg rid gv s = (Reply 400 (ErrorBody MsgMissingFields), s)"
  by (simp add: create_operation_def)

text \<open>C27: A create request whose gross_value is no number, or a number <= 0, is answered 400 not-positive before any store access.\<close>

theorem create_gross_not_positive:
  "js_truthy rid \<Longrightarrow> js_truthy gv \<Longrightarrow> gross_rejected gv \<Longrightarrow>
   create_operation cfg rid gv s = (Reply 400 (ErrorBody MsgGrossNotPositive), s)"
  by (cases gv) (simp_all add: create_operation_def)

text \<open>C4: Creating an operation for a receiver that does not exist never creates a row nor changes the committed tables, whatever queries fail; the answer is 404 receiver-not-found or 500.\<close>

theorem create_receiver_missing:
  assumes "js_truthy rid" "gv = JNumber g" "js_truthy gv" "\<not> js_le g (Fin 0 0)"
    "receiver_key cfg rid = KeyOf r" "receivers (view s) r = None"
    "create_operation cfg rid gv s = (resp, s')"
  shows "committed s' = committed s \<and> txn s' = txn s \<and>
    resp \<in> {Reply 404 (ErrorBody MsgReceiverNotFound), Reply 500 (ErrorBody MsgCreateFailed)}"
  using assms
  by (auto simp: create_operation_def create_try_def q_receiver_exists_def qbind_def qreturn_def
      on_tables_def guarded_def t_receiver_exists_def view_def split: prod.splits bool.splits)

text \<open>C24: With no failing query, a valid create request for an existing receiver stores one new pending operation under the next id, with the gross value, fee = gross * FEE_PERCENTAGE and net = gross - fee as the store reads those JavaScript numbers, changes no balance, and answers 201 with that operation.\<close>

theorem create_ok:
  assumes "txn s = None" "faults s = []" "js_truthy rid" "gv = JNumber g" "js_truthy gv"
    "\<not> js_le g (Fin 0 0)" "receiver_key cfg rid = KeyOf r" "receivers (committed s) r \<noteq> None"
    "money_in cfg g = Some gm" "money_in cfg (fee_of g) = Some fm" "money_in cfg (net_of g) = Some nm"
  shows "create_operation cfg rid gv s =
    (let k = next_oid (committed s); op = new_operation k r gm fm nm (clock (committed s))
     in (Reply 201 (MessageOpBody MsgAwaitingConfirmation (op_json_of op)),
         s\<lparr>committed := (committed s)\<lparr>next_oid := Suc k,
            operations := (operations (committed s))(k \<mapsto> op)\<rparr>\<rparr>))"
  using assms
  by (simp add: create_operation_def create_try_def query_defs qbind_def qreturn_def
      on_tables_def guarded_def table_defs Let_def)

section \<open>GET /operations/:id\<close>

text \<open>C28: With no failing query, fetching an id that names no operation answers 404 operation-not-found and leaves the store unchanged.\<close>

theorem get_not_found:
  assumes "faults s = []" "operation_key cfg t = KeyOf k" "operations (view s) k = None"
  shows "get_operation cfg t s = (Reply 404 (ErrorBody MsgOperationNotFound), s)"
  using assms
  by (simp add: get_operation_def q_find_operation_def on_tables_def guarded_def t_find_operation_def view_def)

text \<open>C29: With no failing query, fetching an id the id column cannot read (a cast error of the store) answers 500 fetch-failed, not 404.\<close>

theorem get_invalid_id:
  assumes "faults s = []" "operation_key cfg t = KeyInvalid"
  shows "get_operation cfg t s = (Reply 500 (ErrorBody MsgFetchFailed), s)"
  using assms
  by (simp add: get_operation_def q_find_operation_def on_tables_def guarded_def t_find_operation_def)

section \<open>Effects on the tables\<close>

lemma create_try_valid:
  "qvalid (\<lambda>c w. w = None \<and> c = c0) (create_try cfg rid g)
     (\<lambda>x c w. w = None \<and> (c = c0 \<or> inserted cfg rid g c0 c))"
  unfolding create_try_def query_defs
  apply (rule qvalid_weaken)
   apply (rule qvalid_rules)+
  apply (auto simp: table_defs inserted_def insert_effect_def Let_def split: key_param.splits option.splits)
  done

lemma create_operation_tables:
  assumes "txn s = None" "create_operation cfg rid gv s = (resp, s')"
  shows "txn s' = None \<and> (committed s' = committed s \<or>
    (\<exists>g. gv = JNumber g \<and> \<not> js_le g (Fin 0 0) \<and> inserted cfg rid g (committed s) (committed s')))"
proof (cases "\<not> js_truthy rid \<or> \<not> js_truthy gv \<or> gross_rejected gv")
  case True
  then have "create_operation cfg rid gv s = (fst (create_operation cfg rid gv s), s)"
    by (cases gv) (auto simp: create_operation_def)
  with assms show ?thesis by simp
next
  case False
  then obtain g where gv: "gv = JNumber g" and ok: "js_truthy rid" "js_truthy gv" "\<not> js_le g (Fin 0 0)"
    by (cases gv) auto
  obtain x s1 where run: "create_try cfg rid g s = (x, s1)" by fastforce
  with assms ok gv have "s' = s1"
    by (auto simp: create_operation_def split: sum.splits option.splits)
  with qvalidD [OF create_try_valid [of "committed s" cfg rid g] _ run] assms(1) gv ok(3)
  show ?thesis by auto
qed

section \<open>Runs on the demo ledger\<close>

lemmas demo_defs = store_of_def demo_ledger_def demo_pending_def demo_confirmed_def pg_cfg_def
  pg_operation_key_def parse_int4_def trim_spaces_def pg_space_def digit_val_def new_operation_def

lemma demo_create_run:
  "create_operation pg_cfg (JNumber (Fin 1 0)) (JNumber (Fin 25 2)) (store_of demo_ledger []) =
     (Reply 201 (MessageOpBody MsgAwaitingConfirmation (op_json_of (new_operation 1 1 100 3 97 0))),
      store_of demo_pending [])"
proof -
  have v: "fee_of (Fin 25 2) = Fin 3 0" "net_of (Fin 25 2) = Fin 97 0"
    by (simp_all add: fee_of_def net_of_def FEE_PERCENTAGE_def js_eval)
  have js: "pg_money_in (Fin 25 2) = Some 100" "pg_money_in (fee_of (Fin 25 2)) = Some 3"
    "pg_money_in (net_of (Fin 25 2)) = Some 97"
    using pg_money_in_examples by (simp_all only: v)
  show ?thesis
    by (simp add: create_operation_def create_try_def query_defs qbind_def qreturn_def on_tables_def
        guarded_def table_defs js demo_defs dy_le_def fin_val_def pow2_def numeral_2_eq_2 Let_def
        del: pg_money_in.simps)
qed

lemma confirm_operation_tables:
  assumes "txn s = None" and "confirm_operation cfg t s = (r, s')"
  shows "txn s' = None \<and> (committed s' = committed s \<or>
    (\<exists>k op. operations (committed s) k = Some op \<and> op_status op = Pending \<and>
       committed s' = confirm_effect k op (committed s)))"
proof -
  from assms(2) obtain x where run: "confirm_handler cfg t s = (x, s')"
    by (blast dest: confirm_operation_run)
  from qvalidD [OF confirm_handler_valid [of "committed s" cfg t] _ run] assms(1)
  show ?thesis by blast
qed

lemma demo_confirm_run:
  "confirm_operation pg_cfg ''1'' (store_of demo_pending []) =
     (Reply 200 (MessageOpBody MsgConfirmed
        (op_json_of ((new_operation 1 1 100 3 97 0)\<lparr>op_status := Confirmed\<rparr>))),
      store_of demo_confirmed [])"
  by (simp add: confirm_run_defs table_defs demo_defs confirm_effect_def)

section \<open>Witnesses on the demo ledger\<close>

theorem confirm_atomic_witness:
  "txn (snd (confirm_operation pg_cfg ''1'' (store_of demo_pending [False, False, False, False, True]))) = None"
proof -
  have "txn (store_of demo_pending [False, False, False, False, True]) = None"
    by (simp add: store_of_def)
  from confirm_atomic [OF this prod.collapse [symmetric]] show ?thesis by blast
qed

theorem confirm_pending_ok_witness:
  "confirm_operation pg_cfg ''1'' (store_of demo_pending []) =
     (Reply 200 (MessageOpBody MsgConfirmed
        (op_json_of ((new_operation 1 1 100 3 97 0)\<lparr>op_status := Confirmed\<rparr>))),
      store_of demo_confirmed [])"
  using confirm_pending_ok [of "store_of demo_pending []" pg_cfg "''1''" 1 "new_operation 1 1 100 3 97 0"]
  by (simp add: demo_defs)

theorem confirm_already_confirmed_witness:
  "committed (snd (confirm_operation pg_cfg ''1'' (store_of demo_confirmed [False, True]))) = demo_confirmed"
  using confirm_already_confirmed [of "store_of demo_confirmed [False, True]" pg_cfg "''1''" 1
      "(new_operation 1 1 100 3 97 0)\<lparr>op_status := Confirmed\<rparr>"
      "fst (confirm_operation pg_cfg ''1'' (store_of demo_confirmed [False, True]))"
      "snd (confirm_operation pg_cfg ''1'' (store_of demo_confirmed [False, True]))"]
  by (simp add: demo_defs confirm_effect_def)

theorem create_ok_witness:
  "create_operation pg_cfg (JNumber (Fin 1 0)) (JNumber (js_decimal 1 2)) (store_of demo_ledger []) =
     (Reply 201 (MessageOpBody MsgAwaitingConfirmation (op_json_of
        (new_operation 1 1 (1 / 100) (3 / 10000) (97 / 10000) 0))),
      store_of (demo_ledger\<lparr>next_oid := 2, operations := [1 \<mapsto> new_operation 1 1
        (1 / 100) (3 / 10000) (97 / 10000) 0]\<rparr>) [])"
proof -
  have g: "js_decimal 1 2 = Fin 5764607523034235 (-59)"
    by (simp add: js_eval)
  have f: "fee_of (Fin 5764607523034235 (-59)) = Fin 5534023222112865 (- 64)"
    by (simp add: fee_of_def FEE_PERCENTAGE_def js_eval)
  have n: "net_of (Fin 5764607523034235 (-59)) = Fin 698958662167901 (- 56)"
    by (simp add: net_of_def f js_eval)
  have js: "money_in pg_cfg (Fin 5764607523034235 (-59)) = Some (1 / 100)"
      "money_in pg_cfg (fee_of (Fin 5764607523034235 (-59))) = Some (3 / 10000)"
      "money_in pg_cfg (net_of (Fin 5764607523034235 (-59))) = Some (97 / 10000)"
    by (simp_all only: f n pg_money_in_cent pg_cfg_def store_cfg.select_convs)
  have "create_operation pg_cfg (JNumber (Fin 1 0)) (JNumber (Fin 5764607523034235 (-59))) (store_of demo_ledger []) =
    (let k = next_oid demo_ledger;
         op = new_operation k 1 (1 / 100) (3 / 10000) (97 / 10000) (clock demo_ledger)
     in (Reply 201 (MessageOpBody MsgAwaitingConfirmation (op_json_of op)),
         (store_of demo_ledger [])\<lparr>committed := demo_ledger\<lparr>next_oid := Suc k,
            operations := (operations demo_ledger)(k \<mapsto> op)\<rparr>\<rparr>))"
    using create_ok [OF _ _ _ refl _ _ _ _ js, of "store_of demo_ledger []" "JNumber (Fin 1 0)" 1]
    by (simp add: store_of_def demo_ledger_def pg_cfg_def dy_le_def)
  then show ?thesis
    unfolding g by (simp add: store_of_def demo_ledger_def Let_def numeral_2_eq_2)
qed

theorem confirm_confirmed_fault_free_witness:
  "confirm_operation pg_cfg ''1'' (store_of demo_confirmed []) =
     (Reply 400 (ErrorBody MsgAlreadyConfirmed), store_of demo_confirmed [])"
  using confirm_confirmed_fault_free [of "store_of demo_confirmed []" pg_cfg "''1''" 1
      "(new_operation 1 1 100 3 97 0)\<lparr>op_status := Confirmed\<rparr>"]
  by (simp add: demo_defs confirm_effect_def)

theorem confirm_connect_fault_witness:
  "confirm_operation pg_cfg ''1'' (store_of demo_pending [True]) = (NoReply, store_of demo_pending [])"
  using confirm_connect_fault [of "store_of demo_pending [True]" "[]" pg_cfg "''1''"]
  by (simp add: store_of_def)

theorem confirm_reread_fault_witness:
  "confirm_operation pg_cfg ''1'' (store_of demo_pending [False, False, False, False, False, False, True]) =
     (Reply 500 (ErrorBody MsgConfirmFailed), store_of demo_confirmed [])"
  using confirm_reread_fault [of "store_of demo_pending [False, False, False, False, False, False, True]"
      pg_cfg "''1''" 1 "new_operation 1 1 100 3 97 0"]
  by (simp add: demo_defs)

theorem create_missing_fields_witness:
  "create_operation pg_cfg (JString []) (JNumber (Fin 25 2)) (store_of demo_ledger []) =
     (Reply 400 (ErrorBody MsgMissingFields), store_of demo_ledger [])"
  by (rule create_missing_fields) simp

theorem create_gross_not_positive_witness:
  "create_operation pg_cfg (JNumber (Fin 1 0)) (JNumber (Fin (-5) 0)) (store_of demo_ledger []) =
     (Reply 400 (ErrorBody MsgGrossNotPositive), store_of demo_ledger [])"
  by (rule create_gross_not_positive) (simp_all add: dy_le_def)

theorem create_receiver_missing_witness:
  "committed (snd (create_operation pg_cfg (JNumber (Fin 1 1)) (JNumber (Fin 25 2)) (store_of demo_ledger [])))
     = demo_ledger"
  using create_receiver_missing [of "JNumber (Fin 1 1)" "JNumber (Fin 25 2)" "Fin 25 2" pg_cfg 2
      "store_of demo_ledger []"
      "fst (create_operation pg_cfg (JNumber (Fin 1 1)) (JNumber (Fin 25 2)) (store_of demo_ledger []))"
      "snd (create_operation pg_cfg (JNumber (Fin 1 1)) (JNumber (Fin 25 2)) (store_of demo_ledger []))"]
  by (simp add: demo_defs dy_le_def view_def view_of_def)

theorem get_not_found_witness:
  "get_operation pg_cfg ''7'' (store_of demo_pending []) =
     (Reply 404 (ErrorBody MsgOperationNotFound), store_of demo_pending [])"
  using get_not_found [of "store_of demo_pending []" pg_cfg "''7''" 7]
  by (simp add: demo_defs view_def view_of_def)

theorem get_invalid_id_witness:
  "get_operation pg_cfg ''abc'' (store_of demo_pending []) =
     (Reply 500 (ErrorBody MsgFetchFailed), store_of demo_pending [])"
  by (rule get_invalid_id) (simp_all add: demo_defs)

end
