(* ===== verification/Lifecycle.thy ===== *)
theory Lifecycle
  imports Operations
begin

text \<open>
  The service over time: a request is served on the store left by the previous one, with
  its own pattern of failing queries. The reachable stores are those of any sequence of
  requests from a ledger with the receivers' initial balances and no operation. The
  invariant \<open>ledger_inv\<close> says that every operation is stored under its own id, below the
  id sequence, for a receiver that exists, and that every receiver's balance is its
  initial balance plus the net values of its confirmed operations: the credit of each
  operation is made once, when it is confirmed. Requests are served one at a time here;
  the concurrent confirmations of spec.md section 5 are the subject of \<open>Concurrency\<close>.
\<close>

section \<open>Requests\<close>

datatype 'r request = CreateReq jsval jsval | FetchReq string | ConfirmReq string

definition handle :: "'r store_cfg \<Rightarrow> 'r request \<Rightarrow> 'r store \<Rightarrow> 'r response \<times> 'r store" where
  "handle cfg req s = (case req of
      CreateReq rid gv \<Rightarrow> create_operation cfg rid gv s
    | FetchReq t \<Rightarrow> get_operation cfg t s
    | ConfirmReq t \<Rightarrow> confirm_operation cfg t s)"

text \<open>The store before any request: the receivers' balances, no operation, a fresh sequence.\<close>

definition init_store :: "('r \<rightharpoonup> money) \<Rightarrow> 'r store" where
  "init_store base =
     \<lparr>committed = \<lparr>receivers = base, operations = Map.empty, next_oid = 1, clock = 0\<rparr>,
      txn = None, faults = []\<rparr>"

inductive reachable :: "'r store_cfg \<Rightarrow> ('r \<rightharpoonup> money) \<Rightarrow> 'r store \<Rightarrow> bool"
  for cfg :: "'r store_cfg" and base :: "'r \<rightharpoonup> money" where
  start: "reachable cfg base (init_store base)"
| serve: "reachable cfg base s \<Longrightarrow> handle cfg req (s\<lparr>faults := fs\<rparr>) = (resp, s') \<Longrightarrow>
          reachable cfg base s'"

section \<open>The ledger invariant\<close>

definition credit :: "'r \<Rightarrow> 'r operation option \<Rightarrow> money" where
  "credit r x = (case x of
      Some op \<Rightarrow> if op_receiver op = r \<and> op_status op = Confirmed then op_net op else 0
    | None \<Rightarrow> 0)"

definition credited :: "'r ledger \<Rightarrow> 'r \<Rightarrow> money" where
  "credited c r = (\<Sum>k<next_oid c. credit r (operations c k))"

definition ledger_inv :: "('r \<rightharpoonup> money) \<Rightarrow> 'r ledger \<Rightarrow> bool" where
  "ledger_inv base c \<longleftrightarrow>
     (\<forall>k op. operations c k = Some op \<longrightarrow> op_id op = k \<and> k < next_oid c \<and> op_receiver op \<in> dom base) \<and>
     (\<forall>r. receivers c r = map_option (\<lambda>b0. b0 + credited c r) (base r))"

lemma ledger_inv_init: "ledger_inv base (committed (init_store base))"
  by (simp add: ledger_inv_def init_store_def credited_def credit_def option.map_ident)

lemma ledger_inv_fresh: "ledger_inv base c \<Longrightarrow> operations c (next_oid c) = None"
  by (cases "operations c (next_oid c)") (auto simp: ledger_inv_def)

lemma credited_insert:
  assumes "ledger_inv base c" "op_status op = Pending"
  shows "credited (insert_effect (next_oid c) op c) r = credited c r"
proof -
  have "credited (insert_effect (next_oid c) op c) r =
      (\<Sum>k<next_oid c. credit r (operations c k)) + credit r (Some op)"
    by (simp add: credited_def insert_effect_def)
  then show ?thesis using assms(2) by (simp add: credit_def credited_def)
qed

lemma ledger_inv_insert:
  assumes inv: "ledger_inv base c" and r: "receivers c r \<noteq> None"
  shows "ledger_inv base (insert_effect (next_oid c) (new_operation (next_oid c) r gm fm nm t) c)"
proof -
  let ?op = "new_operation (next_oid c) r gm fm nm t"
  have "r \<in> dom base" using inv r by (auto simp: ledger_inv_def)
  moreover have "\<And>r'. credited (insert_effect (next_oid c) ?op c) r' = credited c r'"
    using inv by (rule credited_insert) (simp add: new_operation_def)
  ultimately show ?thesis using inv
    by (auto simp: ledger_inv_def insert_effect_def new_operation_def less_Suc_eq)
qed

lemma credited_confirm:
  assumes "ledger_inv base c" "operations c k = Some op" "op_status op = Pending"
  shows "credited (confirm_effect k op c) r =
    credited c r + (if op_receiver op = r then op_net op else 0)"
proof -
  have k: "k < next_oid c" using assms(1,2) by (auto simp: ledger_inv_def)
  have "(\<Sum>i<next_oid c. credit r (operations (confirm_effect k op c) i)) =
      (\<Sum>i<next_oid c. credit r (operations c i)) +
      (credit r (operations (confirm_effect k op c) k) - credit r (operations c k))"
    by (rule sum_lessThan_single_change [OF k]) (simp add: confirm_effect_def)
  then show ?thesis using assms(2,3)
    by (simp add: credited_def confirm_effect_def credit_def)
qed

lemma ledger_inv_confirm:
  assumes inv: "ledger_inv base c" and op: "operations c k = Some op" "op_status op = Pending"
  shows "ledger_inv base (confirm_effect k op c)"
proof -
  from inv op have "op_receiver op \<in> dom base" by (auto simp: ledger_inv_def)
  then obtain b0 where b0: "base (op_receiver op) = Some b0" by auto
  have bal: "receivers c (op_receiver op) = Some (b0 + credited c (op_receiver op))"
    using inv b0 by (auto simp: ledger_inv_def)
  have "\<forall>k' op'. operations (confirm_effect k op c) k' = Some op' \<longrightarrow>
      op_id op' = k' \<and> k' < next_oid (confirm_effect k op c) \<and> op_receiver op' \<in> dom base"
    using inv op by (auto simp: ledger_inv_def confirm_effect_def split: option.splits)
  moreover have "receivers (confirm_effect k op c) r =
      map_option (\<lambda>b0. b0 + credited (confirm_effect k op c) r) (base r)" for r
    using inv bal b0 credited_confirm [OF inv op]
    by (auto simp: ledger_inv_def confirm_effect_def algebra_simps)
  ultimately show ?thesis by (simp add: ledger_inv_def)
qed

section \<open>Every request keeps the invariant\<close>

lemma handle_tables:
  assumes "txn s = None" "handle cfg req s = (resp, s')"
  shows "txn s' = None \<and> (committed s' = committed s \<or>
    (\<exists>rid g. \<not> js_le g (Fin 0 0) \<and> inserted cfg rid g (committed s) (committed s')) \<or>
    (\<exists>k op. operations (committed s) k = Some op \<and> op_status op = Pending \<and>
       committed s' = confirm_effect k op (committed s)))"
proof (cases req)
  case (CreateReq rid gv)
  with assms create_operation_tables [of s cfg rid gv resp s'] show ?thesis
    by (auto simp: handle_def)
next
  case (FetchReq t)
  with assms show ?thesis
    by (auto simp: handle_def get_operation_def q_find_operation_def on_tables_def guarded_def
        t_find_operation_def split: prod.splits bool.splits sum.splits option.splits key_param.splits)
next
  case (ConfirmReq t)
  with assms confirm_operation_tables [of s cfg t resp s'] show ?thesis by (auto simp: handle_def)
qed

lemma ledger_inv_handle:
  assumes "ledger_inv base (committed s)" "txn s = None" "handle cfg req s = (resp, s')"
  shows "ledger_inv base (committed s') \<and> txn s' = None"
proof -
  from handle_tables [OF assms(2,3)]
  consider "committed s' = committed s"
    | rid g where "inserted cfg rid g (committed s) (committed s')"
    | k op where "operations (committed s) k = Some op" "op_status op = Pending"
        "committed s' = confirm_effect k op (committed s)"
    by auto
  then have "ledger_inv base (committed s')"
  proof cases
    case 1
    with assms(1) show ?thesis by simp
  next
    case 2
    with assms(1) show ?thesis by (auto simp: inserted_def intro!: ledger_inv_insert)
  next
    case 3
    with assms(1) show ?thesis by (simp add: ledger_inv_confirm)
  qed
  with handle_tables [OF assms(2,3)] show ?thesis by simp
qed

lemma reachable_ledger_inv:
  "reachable cfg base s \<Longrightarrow> ledger_inv base (committed s) \<and> txn s = None"
proof (induction rule: reachable.induct)
  case start
  show ?case by (simp add: ledger_inv_init) (simp add: init_store_def)
next
  case (serve s req fs resp s')
  then show ?case by (intro ledger_inv_handle [of base "s\<lparr>faults := fs\<rparr>" cfg req resp s']) simp_all
qed

text \<open>C5: After any sequence of requests served one at a time, each with any pattern of failing queries, every receiver's balance is its initial balance plus the sum of the net values of its confirmed operations.\<close>

theorem reachable_balance:
  assumes "reachable cfg base s" "base r = Some b0"
  shows "receivers (committed s) r = Some (b0 + credited (committed s) r)"
  using reachable_ledger_inv [OF assms(1)] assms(2) by (simp add: ledger_inv_def)

section \<open>Operations only move forward\<close>

definition op_evolves :: "'r operation \<Rightarrow> 'r operation \<Rightarrow> bool" where
  "op_evolves op op' \<longleftrightarrow> op' = op \<or> op_status op = Pending \<and> op' = op\<lparr>op_status := Confirmed\<rparr>"

text \<open>C6: Serving a request never deletes or rewrites a stored operation: it stays as it was, or a pending operation becomes confirmed with everything else unchanged.\<close>

theorem serve_ops_evolve:
  assumes "reachable cfg base s" "handle cfg req (s\<lparr>faults := fs\<rparr>) = (resp, s')"
    "operations (committed s) k = Some op"
  shows "\<exists>op'. operations (committed s') k = Some op' \<and> op_evolves op op'"
proof -
  have inv: "ledger_inv base (committed s)" "txn s = None"
    using reachable_ledger_inv [OF assms(1)] by simp_all
  then have fresh: "operations (committed s) (next_oid (committed s)) = None"
    by (simp add: ledger_inv_fresh)
  from handle_tables [of "s\<lparr>faults := fs\<rparr>" cfg req resp s'] assms(2) inv(2)
  consider "committed s' = committed s"
    | rid g where "inserted cfg rid g (committed s) (committed s')"
    | k' op' where "operations (committed s) k' = Some op'" "op_status op' = Pending"
        "committed s' = confirm_effect k' op' (committed s)"
    by auto
  then show ?thesis
  proof cases
    case 1
    with assms(3) show ?thesis by (simp add: op_evolves_def)
  next
    case 2
    with assms(3) fresh show ?thesis
      by (auto simp: inserted_def insert_effect_def op_evolves_def)
  next
    case 3
    with assms(3) show ?thesis
      by (auto simp: confirm_effect_def op_evolves_def)
  qed
qed

section \<open>Stored amounts come from the fee computation\<close>

definition ops_priced :: "'r store_cfg \<Rightarrow> 'r ledger \<Rightarrow> bool" where
  "ops_priced cfg c \<longleftrightarrow> (\<forall>k op. operations c k = Some op \<longrightarrow>
     (\<exists>g. \<not> js_le g (Fin 0 0) \<and> money_in cfg g = Some (op_gross op) \<and>
        money_in cfg (fee_of g) = Some (op_fee op) \<and> money_in cfg (net_of g) = Some (op_net op)))"

text \<open>C7: In every reachable store, each operation's gross, fee and net are the stored values of a positive JavaScript gross g, of g * FEE_PERCENTAGE and of g - g * FEE_PERCENTAGE.\<close>

theorem reachable_ops_priced: "reachable cfg base s \<Longrightarrow> ops_priced cfg (committed s)"
proof (induction rule: reachable.induct)
  case start
  show ?case by (simp add: ops_priced_def init_store_def)
next
  case (serve s req fs resp s')
  have "txn s = None" using reachable_ledger_inv [OF serve.hyps(1)] by simp
  with handle_tables [of "s\<lparr>faults := fs\<rparr>" cfg req resp s'] serve.hyps(2)
  consider "committed s' = committed s"
    | rid g where "\<not> js_le g (Fin 0 0)" "inserted cfg rid g (committed s) (committed s')"
    | k op where "operations (committed s) k = Some op"
        "committed s' = confirm_effect k op (committed s)"
    by auto
  then show ?case
  proof cases
    case 1
    with serve.IH show ?thesis by simp
  next
    case 2
    with serve.IH show ?thesis
      by (auto simp: ops_priced_def inserted_def insert_effect_def new_operation_def split: if_splits) blast
  next
    case 3
    then have "operations (committed s') k' = Some op' \<Longrightarrow>
        \<exists>op0. operations (committed s) k' = Some op0 \<and> op_gross op0 = op_gross op' \<and>
          op_fee op0 = op_fee op' \<and> op_net op0 = op_net op'" for k' op'
      by (auto simp: confirm_effect_def split: if_splits)
    with serve.IH show ?thesis by (fastforce simp: ops_priced_def)
  qed
qed

section \<open>The scenario of spec.md section 8 is reachable\<close>

lemma demo_init: "(init_store [1 \<mapsto> 0])\<lparr>faults := []\<rparr> = store_of demo_ledger []"
  by (simp add: init_store_def store_of_def demo_ledger_def)

lemma demo_pending_reachable: "reachable pg_cfg [1 \<mapsto> 0] (store_of demo_pending [])"
proof (rule reachable.serve [OF reachable.start])
  show "handle pg_cfg (CreateReq (JNumber (Fin 1 0)) (JNumber (Fin 25 2)))
      ((init_store [1 \<mapsto> 0])\<lparr>faults := []\<rparr>) =
    (Reply 201 (MessageOpBody MsgAwaitingConfirmation (op_json_of (new_operation 1 1 100 3 97 0))),
     store_of demo_pending [])"
    by (simp add: handle_def demo_init demo_create_run)
qed

lemma demo_confirmed_reachable: "reachable pg_cfg [1 \<mapsto> 0] (store_of demo_confirmed [])"
proof (rule reachable.serve [OF demo_pending_reachable])
  show "handle pg_cfg (ConfirmReq ''1'') ((store_of demo_pending [])\<lparr>faults := []\<rparr>) =
    (Reply 200 (MessageOpBody MsgConfirmed
        (op_json_of ((new_operation 1 1 100 3 97 0)\<lparr>op_status := Confirmed\<rparr>))),
     store_of demo_confirmed [])"
    using demo_confirm_run by (simp add: handle_def store_of_def)
qed

theorem reachable_balance_witness:
  "receivers demo_confirmed 1 = Some (0 + credited demo_confirmed 1) \<and> credited demo_confirmed 1 = 97"
proof
  show "receivers demo_confirmed 1 = Some (0 + credited demo_confirmed 1)"
    using reachable_balance [OF demo_confirmed_reachable, of 1 0] by (simp add: store_of_def)
  show "credited demo_confirmed 1 = 97"
    by (simp add: credited_def credit_def demo_defs confirm_effect_def numeral_2_eq_2)
qed

theorem serve_ops_evolve_witness:
  "\<exists>op'. operations (committed (snd (handle pg_cfg (ConfirmReq ''1'') (store_of demo_pending [])))) 1 = Some op' \<and>
     op_evolves (new_operation 1 1 100 3 97 0) op'"
  using serve_ops_evolve [OF demo_pending_reachable, of "ConfirmReq ''1''" "[]"
      "fst (handle pg_cfg (ConfirmReq ''1'') (store_of demo_pending []))"
      "snd (handle pg_cfg (ConfirmReq ''1'') (store_of demo_pending []))" 1 "new_operation 1 1 100 3 97 0"]
  by (simp add: demo_defs)

theorem reachable_ops_priced_witness: "ops_priced pg_cfg demo_pending"
  using reachable_ops_priced [OF demo_pending_reachable] by (simp add: store_of_def)

section \<open>Creating, then fetching\<close>

text \<open>
  What a client sees across two requests: the operation a create request answered with,
  fetched by the id of that answer, is the same JSON object.
\<close>

lemma create_201_stored:
  assumes "txn s = None" "faults s = []"
    "create_operation cfg rid gv s = (Reply 201 (MessageOpBody m j), s')"
  shows "map_option op_json_of (operations (committed s') (j_id j)) = Some j \<and> txn s' = None \<and> faults s' = []"
  using assms
  by (auto simp: create_operation_def create_try_def query_defs qbind_def qreturn_def on_tables_def
      guarded_def table_defs Let_def new_operation_def op_json_of_def
      split: if_splits jsval.splits prod.splits sum.splits option.splits key_param.splits)

text \<open>C20: When a create request is answered 201 with an operation JSON, a fetch of the decimal id in that JSON answers 200 with the very same JSON and leaves the store as it was.\<close>

theorem create_then_fetch:
  assumes "txn s = None" "faults s = []"
    "handle pg_cfg (CreateReq rid gv) s = (Reply 201 (MessageOpBody m j), s')" "j_id j \<le> 2147483647"
  shows "handle pg_cfg (FetchReq (dec_string (j_id j))) s' = (Reply 200 (OpBody j), s')"
proof -
  from assms(3) have "create_operation pg_cfg rid gv s = (Reply 201 (MessageOpBody m j), s')"
    by (simp add: handle_def)
  from create_201_stored [OF assms(1,2) this] obtain op where
    op: "operations (committed s') (j_id j) = Some op" "op_json_of op = j" "txn s' = None" "faults s' = []"
    by blast
  from assms(4) have "pg_operation_key (dec_string (j_id j)) = KeyOf (j_id j)"
    by (rule pg_operation_key_dec)
  with op show ?thesis
    by (simp add: handle_def get_operation_def q_find_operation_def on_tables_def guarded_def
        t_find_operation_def pg_cfg_def view_of_def)
qed

theorem create_then_fetch_witness:
  "handle pg_cfg (FetchReq ''1'') (store_of demo_pending []) =
     (Reply 200 (OpBody (op_json_of (new_operation 1 1 100 3 97 0))), store_of demo_pending [])"
proof -
  have "handle pg_cfg (CreateReq (JNumber (Fin 1 0)) (JNumber (Fin 25 2))) (store_of demo_ledger []) =
     (Reply 201 (MessageOpBody MsgAwaitingConfirmation (op_json_of (new_operation 1 1 100 3 97 0))),
      store_of demo_pending [])"
    by (simp add: handle_def demo_create_run)
  from create_then_fetch [OF _ _ this] show ?thesis
    by (simp add: store_of_def op_json_of_def new_operation_def dec_string_1)
qed

end
