(* ===== verification/Lifecycle_Spec.thy ===== *)
theory Lifecycle_Spec
  imports Lifecycle
begin

text \<open>
  The operation lifecycle of spec.md sections 3 and 4.1 as an abstract state machine and
  the refinement of the service by it. The abstract state is the operations and the
  receivers' balances (\<open>astate\<close>); its only transitions are creating a pending
  operation under a fresh id for an existing receiver (\<open>acreate\<close>) and confirming a
  pending operation, which credits its net value to its receiver in the same step
  (\<open>aconfirm\<close>). The id sequence, the clock, the open transaction and the failing
  queries are not part of it. \<open>lifecycle_refines\<close>: every store reached by any sequence
  of requests, each with any pattern of failing queries, abstracts (\<open>abs_ledger\<close>) to a
  state of the abstract machine; each request is an abstract step or none.
\<close>

section \<open>The abstract lifecycle\<close>

record 'r astate =
  a_ops :: "oid \<rightharpoonup> 'r operation"
  a_bal :: "'r \<rightharpoonup> money"

inductive spec_reach :: "('r \<rightharpoonup> money) \<Rightarrow> 'r astate \<Rightarrow> bool" for base where
  ainit: "spec_reach base \<lparr>a_ops = Map.empty, a_bal = base\<rparr>"
| acreate: "spec_reach base a \<Longrightarrow> a_ops a k = None \<Longrightarrow> a_bal a (op_receiver op) \<noteq> None \<Longrightarrow>
    op_id op = k \<Longrightarrow> op_status op = Pending \<Longrightarrow> spec_reach base (a\<lparr>a_ops := (a_ops a)(k \<mapsto> op)\<rparr>)"
| aconfirm: "spec_reach base a \<Longrightarrow> a_ops a k = Some op \<Longrightarrow> op_status op = Pending \<Longrightarrow>
    a_bal a (op_receiver op) = Some b \<Longrightarrow>
    spec_reach base \<lparr>a_ops = (a_ops a)(k \<mapsto> op\<lparr>op_status := Confirmed\<rparr>),
                     a_bal = (a_bal a)(op_receiver op \<mapsto> b + op_net op)\<rparr>"

definition abs_ledger :: "'r ledger \<Rightarrow> 'r astate" where
  "abs_ledger c = \<lparr>a_ops = operations c, a_bal = receivers c\<rparr>"

section \<open>The request handler refines it\<close>

lemma abs_insert:
  assumes inv: "ledger_inv base c" and ins: "inserted cfg rid g c c'" and sr: "spec_reach base (abs_ledger c)"
  shows "spec_reach base (abs_ledger c')"
proof -
  from ins obtain r gm fm nm where r: "receivers c r \<noteq> None"
    and c': "c' = insert_effect (next_oid c) (new_operation (next_oid c) r gm fm nm (clock c)) c"
    unfolding inserted_def by blast
  have "spec_reach base ((abs_ledger c)\<lparr>a_ops := (a_ops (abs_ledger c))(next_oid c \<mapsto>
      new_operation (next_oid c) r gm fm nm (clock c))\<rparr>)"
    by (rule acreate [OF sr]) (use ledger_inv_fresh [OF inv] r in \<open>simp_all add: abs_ledger_def new_operation_def\<close>)
  with c' show ?thesis by (simp add: abs_ledger_def insert_effect_def)
qed

lemma abs_confirm:
  assumes inv: "ledger_inv base c" and op: "operations c k = Some op" "op_status op = Pending"
    and sr: "spec_reach base (abs_ledger c)"
  shows "spec_reach base (abs_ledger (confirm_effect k op c))"
proof -
  from inv op(1) have "op_receiver op \<in> dom base" by (auto simp: ledger_inv_def)
  with inv obtain b where b: "receivers c (op_receiver op) = Some b" by (auto simp: ledger_inv_def)
  from aconfirm [OF sr, of k op b] op b show ?thesis
    by (simp add: abs_ledger_def confirm_effect_def)
qed

text \<open>C8: Every store reached by any sequence of requests, with any failing queries, is a state of spec.md's abstract operation lifecycle: only pending operations are created, under fresh ids for existing receivers, and only pending operations are confirmed, each with the credit of its net value in the same step.\<close>

theorem lifecycle_refines: "reachable cfg base s \<Longrightarrow> spec_reach base (abs_ledger (committed s))"
proof (induction rule: reachable.induct)
  case start
  show ?case using ainit [of base] by (simp add: abs_ledger_def init_store_def)
next
  case (serve s req fs resp s')
  from reachable_ledger_inv [OF serve.hyps(1)] have inv: "ledger_inv base (committed s)" and t: "txn s = None"
    by simp_all
  from t have "txn (s\<lparr>faults := fs\<rparr>) = None" by simp
  from handle_tables [OF this serve.hyps(2)] have
    "committed s' = committed s \<or>
     (\<exists>rid g. \<not> js_le g (Fin 0 0) \<and> inserted cfg rid g (committed s) (committed s')) \<or>
     (\<exists>k op. operations (committed s) k = Some op \<and> op_status op = Pending \<and>
        committed s' = confirm_effect k op (committed s))" by simp
  then show ?case
  proof (elim disjE exE conjE)
    assume "committed s' = committed s"
    with serve.IH show ?thesis by simp
  next
    fix rid g assume "inserted cfg rid g (committed s) (committed s')"
    from abs_insert [OF inv this serve.IH] show ?thesis .
  next
    fix k op assume "operations (committed s) k = Some op" "op_status op = Pending"
      "committed s' = confirm_effect k op (committed s)"
    with abs_confirm [OF inv _ _ serve.IH] show ?thesis by simp
  qed
qed

section \<open>The demo ledger\<close>

theorem lifecycle_refines_witness: "spec_reach [1 \<mapsto> 0] (abs_ledger demo_confirmed)"
  using lifecycle_refines [OF demo_confirmed_reachable] by (simp add: store_of_def)

end
