(* ===== verification/Concurrency.thy ===== *)
theory Concurrency
  imports Operations
begin

text \<open>
  Concurrent confirmations (spec.md section 5). Each confirm request runs on its own
  connection, a session, which issues the statements of the confirm route one at a time
  (\<open>confirm_try\<close>): \<open>BEGIN\<close>, the \<open>SELECT\<close>, the guard, the two \<open>UPDATE\<close>s, \<open>COMMIT\<close>,
  the re-read, or a \<open>ROLLBACK\<close> on the early returns and in the \<open>catch\<close>. Any session may
  issue its next statement at any moment: the interleaving is a schedule, a list of
  session numbers. Statements are those of PostgreSQL's default isolation level, READ
  COMMITTED: a statement sees the committed tables as they are when it runs, overlaid by
  its own transaction's writes (\<open>view_of\<close>); an \<open>UPDATE\<close> locks the row it writes until
  its transaction ends, and an \<open>UPDATE\<close> of a row another open transaction has written
  waits (the step is not enabled) and then works on the latest committed row. A lock is
  held exactly when the row is in the session's write buffer, so no lock table is kept.
  The plain \<open>SELECT\<close> takes no lock. No query fails here: the failures are those of the
  sequential model, and the point of this theory is the interleaving.
\<close>

section \<open>Sessions\<close>

text \<open>Where a session is in the confirm route: the statement it issues next.\<close>

datatype 'r cpc =
    CBegin | CFind | CSetStatus "'r operation" | CAddBalance "'r operation"
  | CCommit "'r operation" | CReread | CRollback "'r response" | CCatch | CDone "'r response"

text \<open>
  A session: the route parameter, the next statement, the open transaction's buffer, and
  an auxiliary variable recording the operation whose confirmation its \<open>COMMIT\<close> made
  durable (it is never read by the statements).
\<close>

record 'r session =
  s_id :: string
  s_pc :: "'r cpc"
  s_txn :: "'r wbuf option"
  s_credit :: "'r operation option"

record 'r cstate =
  cs_ledger :: "'r ledger"
  cs_sessions :: "'r session list"

definition new_session :: "string \<Rightarrow> 'r session" where
  "new_session t = \<lparr>s_id = t, s_pc = CBegin, s_txn = None, s_credit = None\<rparr>"

definition holds_op :: "'r session \<Rightarrow> oid \<Rightarrow> bool" where
  "holds_op s k = (case s_txn s of None \<Rightarrow> False | Some wb \<Rightarrow> wb_ops wb k \<noteq> None)"

definition holds_rc :: "'r session \<Rightarrow> 'r \<Rightarrow> bool" where
  "holds_rc s r = (case s_txn s of None \<Rightarrow> False | Some wb \<Rightarrow> wb_bal wb r \<noteq> None)"

text \<open>The rows locked by the sessions other than \<open>i\<close>.\<close>

definition locked_op :: "'r session list \<Rightarrow> nat \<Rightarrow> oid \<Rightarrow> bool" where
  "locked_op ss i k = (\<exists>j\<in>set [0..<length ss]. j \<noteq> i \<and> holds_op (ss ! j) k)"

definition locked_rc :: "'r session list \<Rightarrow> nat \<Rightarrow> 'r \<Rightarrow> bool" where
  "locked_rc ss i r = (\<exists>j\<in>set [0..<length ss]. j \<noteq> i \<and> holds_rc (ss ! j) r)"

text \<open>A statement of the session: its result decides the next statement.\<close>

definition sess_run :: "('r, 'a) table_op \<Rightarrow> ('a \<Rightarrow> 'r cpc) \<Rightarrow> 'r ledger \<Rightarrow> 'r session \<Rightarrow>
    'r ledger \<times> 'r session" where
  "sess_run f next c s = (case f c (s_txn s) of
      (Inl _, c', w') \<Rightarrow> (c', s\<lparr>s_pc := CCatch, s_txn := w'\<rparr>)
    | (Inr a, c', w') \<Rightarrow> (c', s\<lparr>s_pc := next a, s_txn := w'\<rparr>))"

definition after_find :: "'r operation option \<Rightarrow> 'r cpc" where
  "after_find found = (case found of
      None \<Rightarrow> CRollback (Reply 404 (ErrorBody MsgOperationNotFound))
    | Some op \<Rightarrow> if op_status op = Confirmed then CRollback (Reply 400 (ErrorBody MsgAlreadyConfirmed))
                 else CSetStatus op)"

definition after_reread :: "'r operation option \<Rightarrow> 'r cpc" where
  "after_reread again = (case again of
      None \<Rightarrow> CCatch
    | Some op' \<Rightarrow> CDone (Reply 200 (MessageOpBody MsgConfirmed (op_json_of op'))))"

definition key_locked :: "oid key_param \<Rightarrow> (oid \<Rightarrow> bool) \<Rightarrow> bool" where
  "key_locked key lo = (case key of KeyOf k \<Rightarrow> lo k | _ \<Rightarrow> False)"

text \<open>
  One statement of a session, given the rows the other sessions lock; \<open>None\<close> when the
  session is finished or waits for a lock. The re-read's \<open>TypeError\<close> and every failure
  go to the \<open>catch\<close>, whose \<open>ROLLBACK\<close> answers 500; \<open>finally\<close> releases the connection.
\<close>

fun sess_step :: "'r store_cfg \<Rightarrow> (oid \<Rightarrow> bool) \<Rightarrow> ('r \<Rightarrow> bool) \<Rightarrow> 'r ledger \<Rightarrow> 'r session \<Rightarrow>
    ('r ledger \<times> 'r session) option" where
  "sess_step cfg lo lr c s = (case s_pc s of
      CBegin \<Rightarrow> Some (sess_run t_begin (\<lambda>_. CFind) c s)
    | CFind \<Rightarrow> Some (sess_run (t_find_operation cfg (s_id s)) after_find c s)
    | CSetStatus op \<Rightarrow>
        if key_locked (operation_key cfg (s_id s)) lo then None
        else Some (sess_run (t_set_status cfg (s_id s) Confirmed) (\<lambda>_. CAddBalance op) c s)
    | CAddBalance op \<Rightarrow>
        if lr (op_receiver op) then None
        else Some (sess_run (t_add_balance (op_receiver op) (op_net op)) (\<lambda>_. CCommit op) c s)
    | CCommit op \<Rightarrow>
        (case sess_run t_commit (\<lambda>_. CReread) c s of (c', s') \<Rightarrow> Some (c', s'\<lparr>s_credit := Some op\<rparr>))
    | CReread \<Rightarrow> Some (sess_run (t_find_operation cfg (s_id s)) after_reread c s)
    | CRollback r \<Rightarrow> Some (sess_run t_rollback (\<lambda>_. CDone r) c s)
    | CCatch \<Rightarrow> Some (sess_run t_rollback (\<lambda>_. CDone (Reply 500 (ErrorBody MsgConfirmFailed))) c s)
    | CDone r \<Rightarrow> None)"

text \<open>The scheduler lets session \<open>i\<close> issue its next statement.\<close>

definition conf_step :: "'r store_cfg \<Rightarrow> nat \<Rightarrow> 'r cstate \<Rightarrow> 'r cstate option" where
  "conf_step cfg i st = (if i < length (cs_sessions st) then
      (case sess_step cfg (locked_op (cs_sessions st) i) (locked_rc (cs_sessions st) i)
             (cs_ledger st) (cs_sessions st ! i) of
         None \<Rightarrow> None
       | Some (c', s') \<Rightarrow> Some \<lparr>cs_ledger = c', cs_sessions = (cs_sessions st)[i := s']\<rparr>)
    else None)"

fun run_sched :: "'r store_cfg \<Rightarrow> nat list \<Rightarrow> 'r cstate \<Rightarrow> 'r cstate option" where
  "run_sched cfg [] st = Some st"
| "run_sched cfg (i # is) st = (case conf_step cfg i st of
      None \<Rightarrow> None
    | Some st' \<Rightarrow> run_sched cfg is st')"

definition start :: "'r ledger \<Rightarrow> string list \<Rightarrow> 'r cstate" where
  "start c ts = \<lparr>cs_ledger = c, cs_sessions = map new_session ts\<rparr>"

text \<open>A session on its own: its statements until it is done, within the fuel.\<close>

fun run_solo :: "'r store_cfg \<Rightarrow> nat \<Rightarrow> 'r ledger \<Rightarrow> 'r session \<Rightarrow> ('r ledger \<times> 'r session) option" where
  "run_solo cfg 0 c s = (case s_pc s of CDone _ \<Rightarrow> Some (c, s) | _ \<Rightarrow> None)"
| "run_solo cfg (Suc n) c s = (case s_pc s of
      CDone _ \<Rightarrow> Some (c, s)
    | _ \<Rightarrow> (case sess_step cfg (\<lambda>_. False) (\<lambda>_. False) c s of
              None \<Rightarrow> None
            | Some (c', s') \<Rightarrow> run_solo cfg n c' s'))"

section \<open>Reachable interleavings and the balance invariant\<close>

text \<open>
  The states reached by any schedule of the sessions from the committed tables \<open>c0\<close>.
  The invariant: a session's balance buffer is empty until its \<open>UPDATE receivers\<close> and
  then holds the latest committed balance plus the net value until its \<open>COMMIT\<close>; no two
  sessions buffer the same receiver (the row lock); and each committed balance is the
  initial one plus the net values of the confirmations committed so far.
\<close>

inductive conc_reach :: "'r store_cfg \<Rightarrow> 'r ledger \<Rightarrow> string list \<Rightarrow> 'r cstate \<Rightarrow> bool"
  for cfg c0 ts where
  init: "conc_reach cfg c0 ts (start c0 ts)"
| step: "conc_reach cfg c0 ts st \<Longrightarrow> conf_step cfg i st = Some st' \<Longrightarrow> conc_reach cfg c0 ts st'"

definition bal_buf :: "'r session \<Rightarrow> 'r \<rightharpoonup> money" where
  "bal_buf s = (case s_txn s of None \<Rightarrow> Map.empty | Some wb \<Rightarrow> wb_bal wb)"

definition credit_of :: "'r session \<Rightarrow> 'r \<Rightarrow> money" where
  "credit_of s r = (case s_credit s of
      Some op \<Rightarrow> if op_receiver op = r then op_net op else 0
    | None \<Rightarrow> 0)"

definition credits :: "'r session list \<Rightarrow> 'r \<Rightarrow> money" where
  "credits ss r = (\<Sum>j<length ss. credit_of (ss ! j) r)"

definition open_clean :: "'r session \<Rightarrow> bool" where
  "open_clean s \<longleftrightarrow> s_txn s \<noteq> None \<and> s_credit s = None \<and> bal_buf s = Map.empty"

definition sess_inv :: "('r \<rightharpoonup> money) \<Rightarrow> 'r session \<Rightarrow> bool" where
  "sess_inv rc s \<longleftrightarrow> (case s_pc s of
      CBegin \<Rightarrow> s_txn s = None \<and> s_credit s = None
    | CFind \<Rightarrow> open_clean s
    | CSetStatus _ \<Rightarrow> open_clean s
    | CAddBalance _ \<Rightarrow> open_clean s
    | CCommit op \<Rightarrow> s_txn s \<noteq> None \<and> s_credit s = None \<and>
        bal_buf s = (case rc (op_receiver op) of
          None \<Rightarrow> Map.empty | Some b \<Rightarrow> [op_receiver op \<mapsto> b + op_net op])
    | _ \<Rightarrow> bal_buf s = Map.empty)"

definition bal_excl :: "'r session list \<Rightarrow> bool" where
  "bal_excl ss \<longleftrightarrow> (\<forall>j<length ss. \<forall>j'<length ss. \<forall>r. j \<noteq> j' \<longrightarrow>
     bal_buf (ss ! j) r = None \<or> bal_buf (ss ! j') r = None)"

definition conc_inv :: "'r ledger \<Rightarrow> 'r cstate \<Rightarrow> bool" where
  "conc_inv c0 st \<longleftrightarrow>
     (\<forall>j<length (cs_sessions st). sess_inv (receivers (cs_ledger st)) (cs_sessions st ! j)) \<and>
     bal_excl (cs_sessions st) \<and>
     (\<forall>r. receivers (cs_ledger st) r = map_option (\<lambda>b. b + credits (cs_sessions st) r) (receivers c0 r))"

text \<open>
  Progress: the statements a session has left (at most seven), and the sessions that hold
  an operation row lock, which are between the status \<open>UPDATE\<close> and the \<open>COMMIT\<close>.
\<close>

fun remaining :: "'r cpc \<Rightarrow> nat" where
  "remaining CBegin = 7"
| "remaining CFind = 6"
| "remaining (CSetStatus _) = 5"
| "remaining (CAddBalance _) = 4"
| "remaining (CCommit _) = 3"
| "remaining CReread = 2"
| "remaining (CRollback _) = 1"
| "remaining CCatch = 1"
| "remaining (CDone _) = 0"

definition work :: "'r cstate \<Rightarrow> nat" where
  "work st = sum_list (map (\<lambda>s. remaining (s_pc s)) (cs_sessions st))"

fun is_done :: "'r cpc \<Rightarrow> bool" where
  "is_done (CDone _) = True"
| "is_done _ = False"

definition ops_inv :: "'r session \<Rightarrow> bool" where
  "ops_inv s \<longleftrightarrow> (case s_pc s of
      CAddBalance _ \<Rightarrow> True
    | CCommit _ \<Rightarrow> True
    | _ \<Rightarrow> (\<forall>k. \<not> holds_op s k))"

definition live_inv :: "'r cstate \<Rightarrow> bool" where
  "live_inv st \<longleftrightarrow> (\<forall>j<length (cs_sessions st). ops_inv (cs_sessions st ! j))"

lemmas sess_defs = sess_run_def after_find_def after_reread_def key_locked_def table_defs

lemmas sched_defs = start_def conf_step_def locked_op_def locked_rc_def holds_op_def holds_rc_def
  new_session_def sess_defs

section \<open>A session on its own is the confirm route\<close>

lemma run_solo_numeral [simp]:
  "run_solo cfg (numeral n) c s = (case s_pc s of
      CDone _ \<Rightarrow> Some (c, s)
    | _ \<Rightarrow> (case sess_step cfg (\<lambda>_. False) (\<lambda>_. False) c s of
              None \<Rightarrow> None
            | Some (c', s') \<Rightarrow> run_solo cfg (pred_numeral n) c' s'))"
  by (simp add: numeral_eq_Suc)


text \<open>
  A cross-check of the two encodings of the confirm route: a session running alone with
  no failing query ends within six statements with the committed tables and the response
  of the sequential handler \<open>Operations.confirm_operation\<close>.
\<close>

lemma run_solo_confirm:
  assumes "confirm_operation cfg t (store_of c []) = (r, s')"
  shows "\<exists>s. run_solo cfg 6 c (new_session t) = Some (committed s', s) \<and> s_pc s = CDone r \<and>
    s_txn s = None"
proof -
  have run: "s' = snd (confirm_operation cfg t (store_of c []))" "r = fst (confirm_operation cfg t (store_of c []))"
    using assms by simp_all
  show ?thesis
  proof (cases "operation_key cfg t")
    case (KeyOf k)
    show ?thesis
    proof (cases "operations c k")
      case None
      with KeyOf show ?thesis
        unfolding run by (simp add: confirm_run_defs store_of_def new_session_def sess_defs)
    next
      case (Some op)
      with KeyOf show ?thesis
        unfolding run by (cases "op_status op"; cases "receivers c (op_receiver op)")
          (simp_all add: confirm_run_defs store_of_def new_session_def sess_defs)
    qed
  next
    case KeyNull
    then show ?thesis
      unfolding run by (simp add: confirm_run_defs store_of_def new_session_def sess_defs)
  next
    case KeyInvalid
    then show ?thesis
      unfolding run by (simp add: confirm_run_defs store_of_def new_session_def sess_defs)
  qed
qed


section \<open>The invariant\<close>

lemma holds_rc_bal_buf: "holds_rc s r \<longleftrightarrow> bal_buf s r \<noteq> None"
  by (simp add: holds_rc_def bal_buf_def split: option.splits)

lemma sess_step_effect:
  assumes inv: "sess_inv (receivers c) s" and run: "sess_step cfg lo lr c s = Some (c', s')"
  shows "sess_inv (receivers c') s' \<and>
    (receivers c' = receivers c \<and> s_credit s' = s_credit s \<and>
       (\<forall>r. bal_buf s' r \<noteq> None \<longrightarrow> bal_buf s r \<noteq> None \<or> \<not> lr r) \<or>
     (\<exists>op. s_pc s = CCommit op \<and> receivers c' = receivers c ++ bal_buf s \<and>
        s_credit s = None \<and> s_credit s' = Some op \<and> bal_buf s' = Map.empty))"
proof (cases "s_pc s")
  case (CCommit op)
  with inv run show ?thesis
    by (auto simp: sess_inv_def sess_defs bal_buf_def split: option.splits)
next
  case (CAddBalance op)
  with inv run show ?thesis
    by (auto simp: sess_inv_def open_clean_def sess_defs bal_buf_def split: option.splits if_splits key_param.splits)
qed (use inv run in \<open>auto simp: sess_inv_def open_clean_def sess_defs bal_buf_def
    split: option.splits if_splits key_param.splits\<close>)

lemma bal_buf_dom: "sess_inv rc s \<Longrightarrow> bal_buf s r \<noteq> None \<Longrightarrow> rc r \<noteq> None"
  by (auto simp: sess_inv_def open_clean_def bal_buf_def split: cpc.splits option.splits if_splits)

lemma sess_inv_override:
  assumes "sess_inv rc s" "\<And>r. bal_buf s r \<noteq> None \<Longrightarrow> b' r = None"
    "\<And>r. b' r \<noteq> None \<Longrightarrow> rc r \<noteq> None"
  shows "sess_inv (rc ++ b') s"
proof (cases "s_pc s")
  case (CCommit op)
  have "(rc ++ b') (op_receiver op) = rc (op_receiver op)"
  proof (cases "rc (op_receiver op)")
    case None
    with assms(3) [of "op_receiver op"] show ?thesis by (cases "b' (op_receiver op)") auto
  next
    case (Some b)
    with assms(1) CCommit have "bal_buf s (op_receiver op) \<noteq> None" by (simp add: sess_inv_def)
    with assms(2) show ?thesis by (simp add: map_add_def)
  qed
  with assms(1) CCommit show ?thesis by (simp add: sess_inv_def)
qed (use assms(1) in \<open>simp_all add: sess_inv_def\<close>)

lemma credits_update:
  "i < length ss \<Longrightarrow> credits (ss[i := s']) r = credits ss r + (credit_of s' r - credit_of (ss ! i) r)"
proof -
  assume i: "i < length ss"
  have "(\<Sum>j<length ss. credit_of (ss[i := s'] ! j) r) =
      (\<Sum>j<length ss. credit_of (ss ! j) r) + (credit_of (ss[i := s'] ! i) r - credit_of (ss ! i) r)"
    using i by (rule sum_lessThan_single_change) simp
  with i show ?thesis by (simp add: credits_def)
qed

lemma conc_inv_start: "conc_inv c0 (start c0 ts)"
  by (auto simp: conc_inv_def bal_excl_def start_def new_session_def sess_inv_def bal_buf_def credits_def
      credit_of_def option.map_ident)

lemma bal_excl_update:
  assumes "bal_excl ss" "i < length ss"
    "\<And>r. bal_buf s' r \<noteq> None \<Longrightarrow> bal_buf (ss ! i) r \<noteq> None \<or> \<not> locked_rc ss i r"
  shows "bal_excl (ss[i := s'])"
  unfolding bal_excl_def
proof (intro allI impI)
  fix j j' r
  assume j: "j < length (ss[i := s'])" and j': "j' < length (ss[i := s'])" and ne: "j \<noteq> j'"
  have lock: "bal_buf (ss ! k) r = None" if "bal_buf s' r \<noteq> None" "k < length ss" "k \<noteq> i" for k
  proof -
    from assms(3) [OF that(1)] consider "bal_buf (ss ! i) r \<noteq> None" | "\<not> locked_rc ss i r" by blast
    then show ?thesis
    proof cases
      case 1
      have "bal_buf (ss ! i) r = None \<or> bal_buf (ss ! k) r = None"
        using assms(1) assms(2) that(2,3) unfolding bal_excl_def by simp
      with 1 show ?thesis by auto
    next
      case 2
      then have "\<not> holds_rc (ss ! k) r" using that(2,3) unfolding locked_rc_def by auto
      then show ?thesis by (simp add: holds_rc_bal_buf)
    qed
  qed
  consider (fst) "j = i" | (snd) "j' = i" | (other) "j \<noteq> i" "j' \<noteq> i" by blast
  then show "bal_buf (ss[i := s'] ! j) r = None \<or> bal_buf (ss[i := s'] ! j') r = None"
  proof cases
    case fst
    with ne j' lock [of j'] assms(2) show ?thesis by (cases "bal_buf s' r") auto
  next
    case snd
    with ne j lock [of j] assms(2) show ?thesis by (cases "bal_buf s' r") auto
  next
    case other
    with assms(1) j j' ne show ?thesis by (simp add: bal_excl_def)
  qed
qed

lemma conc_inv_step:
  assumes inv: "conc_inv c0 st" and step: "conf_step cfg i st = Some st'"
  shows "conc_inv c0 st'"
proof -
  let ?ss = "cs_sessions st" and ?c = "cs_ledger st"
  from step obtain c' s' where i: "i < length ?ss"
    and run: "sess_step cfg (locked_op ?ss i) (locked_rc ?ss i) ?c (?ss ! i) = Some (c', s')"
    and st': "st' = \<lparr>cs_ledger = c', cs_sessions = ?ss[i := s']\<rparr>"
    by (auto simp: conf_step_def split: if_splits option.splits)
  have invs: "\<And>j. j < length ?ss \<Longrightarrow> sess_inv (receivers ?c) (?ss ! j)" and excl: "bal_excl ?ss"
    and bal: "\<And>r. receivers ?c r = map_option (\<lambda>b. b + credits ?ss r) (receivers c0 r)"
    using inv by (simp_all add: conc_inv_def)
  from sess_step_effect [OF invs [OF i] run]
  have si': "sess_inv (receivers c') s'" and
    "receivers c' = receivers ?c \<and> s_credit s' = s_credit (?ss ! i) \<and>
       (\<forall>r. bal_buf s' r \<noteq> None \<longrightarrow> bal_buf (?ss ! i) r \<noteq> None \<or> \<not> locked_rc ?ss i r) \<or>
     (\<exists>op. s_pc (?ss ! i) = CCommit op \<and> receivers c' = receivers ?c ++ bal_buf (?ss ! i) \<and>
        s_credit (?ss ! i) = None \<and> s_credit s' = Some op \<and> bal_buf s' = Map.empty)"
    by blast+
  then consider (same) "receivers c' = receivers ?c" "s_credit s' = s_credit (?ss ! i)"
      "\<And>r. bal_buf s' r \<noteq> None \<Longrightarrow> bal_buf (?ss ! i) r \<noteq> None \<or> \<not> locked_rc ?ss i r"
    | (commit) op where "s_pc (?ss ! i) = CCommit op" "receivers c' = receivers ?c ++ bal_buf (?ss ! i)"
      "s_credit (?ss ! i) = None" "s_credit s' = Some op" "bal_buf s' = Map.empty"
    by blast
  then show ?thesis
  proof cases
    case same
    have sessions: "sess_inv (receivers c') (?ss[i := s'] ! j)" if "j < length ?ss" for j
    proof (cases "j = i")
      case True
      with si' i show ?thesis by simp
    next
      case False
      with invs [OF that] same(1) show ?thesis by simp
    qed
    have "credits (?ss[i := s']) r = credits ?ss r" for r
      using credits_update [OF i, of s' r] same(2) by (simp add: credit_of_def)
    then have balance: "receivers c' r = map_option (\<lambda>b. b + credits (?ss[i := s']) r) (receivers c0 r)" for r
      using bal [of r] same(1) by simp
    have "bal_excl (?ss[i := s'])"
      by (rule bal_excl_update [OF excl i same(3)])
    with sessions balance show ?thesis
      unfolding conc_inv_def st' by simp
  next
    case commit
    have others: "sess_inv (receivers c') (?ss ! j)" if "j < length ?ss" "j \<noteq> i" for j
      unfolding commit(2)
    proof (rule sess_inv_override [OF invs [OF that(1)]])
      show "bal_buf (?ss ! j) r \<noteq> None \<Longrightarrow> bal_buf (?ss ! i) r = None" for r
      proof -
        have "bal_buf (?ss ! j) r = None \<or> bal_buf (?ss ! i) r = None"
          using excl that i unfolding bal_excl_def by simp
        then show "bal_buf (?ss ! j) r \<noteq> None \<Longrightarrow> bal_buf (?ss ! i) r = None" by auto
      qed
      show "bal_buf (?ss ! i) r \<noteq> None \<Longrightarrow> receivers ?c r \<noteq> None" for r
        by (rule bal_buf_dom [OF invs [OF i]])
    qed
    have sessions: "sess_inv (receivers c') (?ss[i := s'] ! j)" if "j < length ?ss" for j
    proof (cases "j = i")
      case True
      with si' i show ?thesis by simp
    next
      case False
      with others [OF that] show ?thesis by simp
    qed
    have buf: "bal_buf (?ss ! i) = (case receivers ?c (op_receiver op) of
        None \<Rightarrow> Map.empty | Some b \<Rightarrow> [op_receiver op \<mapsto> b + op_net op])"
      using invs [OF i] commit(1) by (simp add: sess_inv_def)
    have balance: "receivers c' r = map_option (\<lambda>b. b + credits (?ss[i := s']) r) (receivers c0 r)" for r
    proof -
      have cr: "credits (?ss[i := s']) r = credits ?ss r + (if op_receiver op = r then op_net op else 0)"
        using credits_update [OF i, of s' r] commit(3,4) by (simp add: credit_of_def)
      show ?thesis
      proof (cases "op_receiver op = r")
        case True
        then show ?thesis
          using bal [of r] buf cr commit(2) by (cases "receivers c0 r") (simp_all add: add.assoc)
      next
        case False
        have "bal_buf (?ss ! i) r = None"
          using buf False by (simp split: option.split)
        then show ?thesis using bal [of r] cr commit(2) False by (simp add: map_add_def)
      qed
    qed
    have "bal_excl (?ss[i := s'])"
      by (rule bal_excl_update [OF excl i]) (simp add: commit(5))
    with sessions balance show ?thesis
      unfolding conc_inv_def st' by simp
  qed
qed

section \<open>No interleaving deadlocks\<close>

lemma sess_step_remaining:
  "sess_step cfg lo lr c s = Some (c', s') \<Longrightarrow> remaining (s_pc s') < remaining (s_pc s)"
  by (cases "s_pc s")
    (auto simp: sess_defs split: option.splits if_splits key_param.splits sum.splits prod.splits)

lemma sess_step_id: "sess_step cfg lo lr c s = Some (c', s') \<Longrightarrow> s_id s' = s_id s"
  by (cases "s_pc s") (auto simp: sess_defs split: option.splits if_splits key_param.splits sum.splits prod.splits)

lemma conf_step_Some:
  assumes "conf_step cfg i st = Some st'"
  obtains c' s' lo lr where "i < length (cs_sessions st)"
    "sess_step cfg lo lr (cs_ledger st) (cs_sessions st ! i) = Some (c', s')"
    "st' = \<lparr>cs_ledger = c', cs_sessions = (cs_sessions st)[i := s']\<rparr>"
  using assms by (auto simp: conf_step_def split: if_splits option.splits)

lemma conf_step_work: "conf_step cfg i st = Some st' \<Longrightarrow> work st' < work st"
proof -
  assume step: "conf_step cfg i st = Some st'"
  then obtain c' s' where i: "i < length (cs_sessions st)"
    and run: "sess_step cfg (locked_op (cs_sessions st) i) (locked_rc (cs_sessions st) i)
        (cs_ledger st) (cs_sessions st ! i) = Some (c', s')"
    and st': "st' = \<lparr>cs_ledger = c', cs_sessions = (cs_sessions st)[i := s']\<rparr>"
    by (auto simp: conf_step_def split: if_splits option.splits)
  let ?xs = "map (\<lambda>s. remaining (s_pc s)) (cs_sessions st)"
  have lt: "remaining (s_pc s') < ?xs ! i" using sess_step_remaining [OF run] i by simp
  have "?xs ! i \<le> sum_list ?xs" using i by (intro elem_le_sum_list) simp
  with lt i show ?thesis
    by (simp add: work_def st' map_update sum_list_update)
qed

lemma ops_inv_step:
  "ops_inv s \<Longrightarrow> sess_step cfg lo lr c s = Some (c', s') \<Longrightarrow> ops_inv s'"
  by (cases "s_pc s")
    (auto simp: ops_inv_def holds_op_def sess_defs split: option.splits if_splits key_param.splits sum.splits prod.splits)

lemma live_inv_start: "live_inv (start c0 ts)"
  by (simp add: live_inv_def start_def new_session_def ops_inv_def holds_op_def)

lemma live_inv_step: "live_inv st \<Longrightarrow> conf_step cfg i st = Some st' \<Longrightarrow> live_inv st'"
  using ops_inv_step
  by (fastforce simp: live_inv_def conf_step_def nth_list_update split: if_splits option.splits)

lemma conc_reach_inv: "conc_reach cfg c0 ts st \<Longrightarrow> conc_inv c0 st \<and> live_inv st"
  by (induction rule: conc_reach.induct)
    (auto intro: conc_inv_start conc_inv_step live_inv_start live_inv_step)

lemma holds_rc_commit: "sess_inv rc s \<Longrightarrow> holds_rc s r \<Longrightarrow> \<exists>op. s_pc s = CCommit op"
  by (cases "s_pc s") (auto simp: holds_rc_bal_buf sess_inv_def open_clean_def bal_buf_def)

lemma holds_op_pc: "ops_inv s \<Longrightarrow> holds_op s k \<Longrightarrow> \<exists>op. s_pc s = CAddBalance op \<or> s_pc s = CCommit op"
  by (cases "s_pc s") (auto simp: ops_inv_def)

lemma commit_enabled:
  "i < length (cs_sessions st) \<Longrightarrow> s_pc (cs_sessions st ! i) = CCommit op \<Longrightarrow> conf_step cfg i st \<noteq> None"
  by (simp add: conf_step_def split: prod.split)

lemma holds_op_txn: "holds_op s k \<Longrightarrow> s_txn s \<noteq> None"
  by (auto simp: holds_op_def split: option.splits)

lemma holds_rc_txn: "holds_rc s r \<Longrightarrow> s_txn s \<noteq> None"
  by (auto simp: holds_rc_def split: option.splits)

text \<open>
  The session that can issue a statement is the busy session itself or one with an open
  transaction, the holder of the lock it waits for.
\<close>

lemma add_balance_progress:
  assumes inv: "conc_inv c0 st" and i: "i < length (cs_sessions st)"
    and pc: "s_pc (cs_sessions st ! i) = CAddBalance op"
  shows "\<exists>j. conf_step cfg j st \<noteq> None \<and> (j = i \<or> s_txn (cs_sessions st ! j) \<noteq> None)"
proof (cases "locked_rc (cs_sessions st) i (op_receiver op)")
  case False
  with i pc have "conf_step cfg i st \<noteq> None" by (simp add: conf_step_def split: prod.split)
  then show ?thesis by blast
next
  case True
  then obtain l where l: "l < length (cs_sessions st)" "holds_rc (cs_sessions st ! l) (op_receiver op)"
    by (auto simp: locked_rc_def)
  have "sess_inv (receivers (cs_ledger st)) (cs_sessions st ! l)" using inv l(1) by (simp add: conc_inv_def)
  from holds_rc_commit [OF this l(2)] obtain op' where "s_pc (cs_sessions st ! l) = CCommit op'" by blast
  from commit_enabled [OF l(1) this] holds_rc_txn [OF l(2)] show ?thesis by blast
qed

lemma step_enabled:
  assumes "i < length (cs_sessions st)" "\<not> is_done (s_pc (cs_sessions st ! i))"
    "\<And>op. s_pc (cs_sessions st ! i) \<noteq> CSetStatus op" "\<And>op. s_pc (cs_sessions st ! i) \<noteq> CAddBalance op"
  shows "conf_step cfg i st \<noteq> None"
  using assms by (cases "s_pc (cs_sessions st ! i)") (auto simp: conf_step_def split: prod.split)

lemma progress:
  assumes inv: "conc_inv c0 st" "live_inv st" and i: "i < length (cs_sessions st)"
    and busy: "\<not> is_done (s_pc (cs_sessions st ! i))"
  shows "\<exists>j. conf_step cfg j st \<noteq> None \<and> (j = i \<or> s_txn (cs_sessions st ! j) \<noteq> None)"
proof (cases "\<exists>op. s_pc (cs_sessions st ! i) = CSetStatus op")
  case True
  then obtain op where pc: "s_pc (cs_sessions st ! i) = CSetStatus op" by blast
  show ?thesis
  proof (cases "key_locked (operation_key cfg (s_id (cs_sessions st ! i))) (locked_op (cs_sessions st) i)")
    case False
    with i pc have "conf_step cfg i st \<noteq> None" by (simp add: conf_step_def split: prod.split)
    then show ?thesis by blast
  next
    case True
    then obtain j k where j: "j < length (cs_sessions st)" "holds_op (cs_sessions st ! j) k"
      by (auto simp: key_locked_def locked_op_def split: key_param.splits)
    have txn: "s_txn (cs_sessions st ! j) \<noteq> None" using j(2) by (rule holds_op_txn)
    from j inv(2) obtain op' where "s_pc (cs_sessions st ! j) = CAddBalance op' \<or>
        s_pc (cs_sessions st ! j) = CCommit op'"
      by (auto simp: live_inv_def dest: holds_op_pc)
    then show ?thesis
    proof
      assume "s_pc (cs_sessions st ! j) = CAddBalance op'"
      from add_balance_progress [OF inv(1) j(1) this] obtain l where
        l: "conf_step cfg l st \<noteq> None" "l = j \<or> s_txn (cs_sessions st ! l) \<noteq> None" by blast
      from l(2) txn have "s_txn (cs_sessions st ! l) \<noteq> None" by auto
      with l(1) show ?thesis by blast
    next
      assume "s_pc (cs_sessions st ! j) = CCommit op'"
      from commit_enabled [OF j(1) this] txn show ?thesis by blast
    qed
  qed
next
  case noset: False
  show ?thesis
  proof (cases "\<exists>op. s_pc (cs_sessions st ! i) = CAddBalance op")
    case True
    with add_balance_progress [OF inv(1) i] show ?thesis by blast
  next
    case False
    with noset step_enabled [OF i busy] show ?thesis by blast
  qed
qed

text \<open>C10: Under every interleaving of concurrent confirmations, each receiver's balance is its initial balance plus the net value of every committed confirmation: no balance update is lost.\<close>

theorem conc_balance:
  "conc_reach cfg c0 ts st \<Longrightarrow>
   receivers (cs_ledger st) r = map_option (\<lambda>b. b + credits (cs_sessions st) r) (receivers c0 r)"
  using conc_reach_inv [of cfg c0 ts st] by (simp add: conc_inv_def)

text \<open>C14: No interleaving of concurrent confirmations deadlocks: from every reachable state some schedule brings every session to its response.\<close>

theorem conc_all_finish:
  "conc_reach cfg c0 ts st \<Longrightarrow>
   \<exists>sched st'. run_sched cfg sched st = Some st' \<and> list_all (\<lambda>s. is_done (s_pc s)) (cs_sessions st')"
proof (induction "work st" arbitrary: st rule: less_induct)
  case less
  show ?case
  proof (cases "list_all (\<lambda>s. is_done (s_pc s)) (cs_sessions st)")
    case True
    then show ?thesis by (metis run_sched.simps(1))
  next
    case False
    then obtain i where i: "i < length (cs_sessions st)" "\<not> is_done (s_pc (cs_sessions st ! i))"
      by (auto simp: list_all_length)
    from conc_reach_inv [OF less.prems] have "conc_inv c0 st" "live_inv st" by simp_all
    from progress [OF this i] obtain j where "conf_step cfg j st \<noteq> None" by blast
    then obtain st1 where step: "conf_step cfg j st = Some st1" by blast
    have "conc_reach cfg c0 ts st1" by (rule conc_reach.step [OF less.prems step])
    with less.hyps [OF conf_step_work [OF step]]
    obtain sched st' where "run_sched cfg sched st1 = Some st'"
        "list_all (\<lambda>s. is_done (s_pc s)) (cs_sessions st')" by blast
    with step have "run_sched cfg (j # sched) st = Some st'" by simp
    with \<open>list_all _ (cs_sessions st')\<close> show ?thesis by blast
  qed
qed

lemma run_sched_reach:
  "run_sched cfg sched st = Some st' \<Longrightarrow> conc_reach cfg c0 ts st \<Longrightarrow> conc_reach cfg c0 ts st'"
proof (induction sched arbitrary: st)
  case Nil
  then show ?case by simp
next
  case (Cons i sched)
  then obtain st1 where "conf_step cfg i st = Some st1" "run_sched cfg sched st1 = Some st'"
    by (auto split: option.splits)
  with Cons.IH Cons.prems(2) show ?case by (blast intro: conc_reach.step)
qed

section \<open>Two confirmations of one operation\<close>

text \<open>
  Both sessions read the operation while it is pending (the plain \<open>SELECT\<close> neither locks
  nor waits); the first confirms, credits and commits; the second's \<open>UPDATE\<close>s then run on
  the committed rows: it confirms the confirmed operation again and credits its receiver a
  second time. Run one after the other, the second session is rejected by the guard.
\<close>

lemma demo_double_run:
  "\<exists>st. run_sched pg_cfg [0, 0, 1, 1, 0, 0, 0, 0, 1, 1, 1, 1] (start demo_pending [''1'', ''1'']) = Some st \<and>
     credits (cs_sessions st) 1 = 194"
  by (simp add: sched_defs demo_defs confirm_effect_def credits_def credit_of_def numeral_2_eq_2 lessThan_Suc)

text \<open>C9: Two concurrent confirmations of one pending operation, both reading it before either commits, both answer 200 and commit: the operation's receiver is credited its net value twice (the SELECT takes no lock and the guard is not re-checked).\<close>

theorem conc_double_credit:
  assumes "operation_key cfg t = KeyOf k" "operations c k = Some op" "op_status op = Pending"
  shows "\<exists>st. run_sched cfg [0, 0, 1, 1, 0, 0, 0, 0, 1, 1, 1, 1] (start c [t, t]) = Some st \<and>
    cs_ledger st = confirm_effect k op (confirm_effect k op c) \<and>
    map s_pc (cs_sessions st) =
      [CDone (Reply 200 (MessageOpBody MsgConfirmed (op_json_of (op\<lparr>op_status := Confirmed\<rparr>)))),
       CDone (Reply 200 (MessageOpBody MsgConfirmed (op_json_of (op\<lparr>op_status := Confirmed\<rparr>))))]"
  using assms
  by (cases "receivers c (op_receiver op)") (simp_all add: sched_defs confirm_effect_def)

text \<open>C15: Two confirmations of one pending operation run one after the other credit it once: 200 then 400 already-confirmed, with the tables of a single confirmation.\<close>

theorem conc_serial:
  assumes "operation_key cfg t = KeyOf k" "operations c k = Some op" "op_status op = Pending"
  shows "\<exists>st. run_sched cfg [0, 0, 0, 0, 0, 0, 1, 1, 1] (start c [t, t]) = Some st \<and>
    cs_ledger st = confirm_effect k op c \<and>
    map s_pc (cs_sessions st) =
      [CDone (Reply 200 (MessageOpBody MsgConfirmed (op_json_of (op\<lparr>op_status := Confirmed\<rparr>)))),
       CDone (Reply 400 (ErrorBody MsgAlreadyConfirmed))]"
  using assms
  by (cases "receivers c (op_receiver op)") (simp_all add: sched_defs confirm_effect_def)

section \<open>Witnesses on the demo ledger\<close>

theorem conc_double_credit_witness:
  "\<exists>st. run_sched pg_cfg [0, 0, 1, 1, 0, 0, 0, 0, 1, 1, 1, 1] (start demo_pending [''1'', ''1'']) = Some st \<and>
    cs_ledger st = confirm_effect 1 (new_operation 1 1 100 3 97 0)
      (confirm_effect 1 (new_operation 1 1 100 3 97 0) demo_pending) \<and>
    receivers (cs_ledger st) 1 = Some 194"
proof -
  from conc_double_credit [of pg_cfg "''1''" 1 demo_pending "new_operation 1 1 100 3 97 0"]
  obtain st where "run_sched pg_cfg [0, 0, 1, 1, 0, 0, 0, 0, 1, 1, 1, 1] (start demo_pending [''1'', ''1'']) = Some st"
      "cs_ledger st = confirm_effect 1 (new_operation 1 1 100 3 97 0)
         (confirm_effect 1 (new_operation 1 1 100 3 97 0) demo_pending)"
    by (auto simp: demo_defs)
  then show ?thesis by (auto simp: demo_defs confirm_effect_def)
qed

theorem conc_serial_witness:
  "\<exists>st. run_sched pg_cfg [0, 0, 0, 0, 0, 0, 1, 1, 1] (start demo_pending [''1'', ''1'']) = Some st \<and>
    cs_ledger st = demo_confirmed"
  using conc_serial [of pg_cfg "''1''" 1 demo_pending "new_operation 1 1 100 3 97 0"]
  by (auto simp: demo_defs)

theorem conc_balance_witness:
  "\<exists>st. conc_reach pg_cfg demo_pending [''1'', ''1''] st \<and>
    receivers (cs_ledger st) 1 = Some (0 + credits (cs_sessions st) 1) \<and> credits (cs_sessions st) 1 = 194"
proof -
  from demo_double_run obtain st where
    run: "run_sched pg_cfg [0, 0, 1, 1, 0, 0, 0, 0, 1, 1, 1, 1] (start demo_pending [''1'', ''1'']) = Some st"
    and cr: "credits (cs_sessions st) 1 = 194" by blast
  have reach: "conc_reach pg_cfg demo_pending [''1'', ''1''] st"
    by (rule run_sched_reach [OF run conc_reach.init])
  from conc_balance [OF reach, of 1] cr reach show ?thesis by (auto simp: demo_defs)
qed

theorem conc_all_finish_witness:
  "\<exists>sched st'. run_sched pg_cfg sched (start demo_pending [''1'', ''1'']) = Some st' \<and>
     list_all (\<lambda>s. is_done (s_pc s)) (cs_sessions st')"
  using conc_all_finish [OF conc_reach.init] .

end
