(* ===== verification/Pool.thy ===== *)
theory Pool
  imports Concurrency
begin

text \<open>
  The connection pool of the database module (\<open>db\<close>, a \<open>pg.Pool\<close> of \<open>n\<close> clients; the
  module is not in the repository and is modelled from spec.md 4.2 and 6) and the confirm
  route's use of it: \<open>const client = await db.connect()\<close> (line 112) waits for a free
  client, the statements of the route run on it (the sessions of \<open>Concurrency\<close>), and
  \<open>finally { client.release() }\<close> (lines 180--182) gives it back once the route has
  answered, on every path. The pooled runs are runs of the unpooled interleavings
  (\<open>pool_reach_inv\<close>), so the invariants of \<open>Concurrency\<close> hold for them; the pool
  accounts for every client and an open transaction always runs on a client its session
  holds (\<open>pool_clients\<close>); and a pool of at least one client never deadlocks the
  confirmations and every client comes back (\<open>pool_all_release\<close>, by induction on the
  work left, \<open>pwork\<close>, which every step decreases).
\<close>

section \<open>Pooled sessions\<close>

text \<open>Where a request is with its client: waiting in \<open>db.connect()\<close>, holding it, or released.\<close>

datatype conn = Waiting | Holding | Released

record 'r pstate =
  ps_conf :: "'r cstate"
  ps_conn :: "conn list"
  ps_free :: nat

definition pstart :: "nat \<Rightarrow> 'r ledger \<Rightarrow> string list \<Rightarrow> 'r pstate" where
  "pstart n c ts = \<lparr>ps_conf = start c ts, ps_conn = replicate (length ts) Waiting, ps_free = n\<rparr>"

text \<open>
  One step of request \<open>i\<close>: take a free client, or issue its next statement on the client
  it holds, or, once it has answered, release the client in \<open>finally\<close>.
\<close>

definition pool_step :: "'r store_cfg \<Rightarrow> nat \<Rightarrow> 'r pstate \<Rightarrow> 'r pstate option" where
  "pool_step cfg i ps = (if i < length (ps_conn ps) then
      (case ps_conn ps ! i of
         Waiting \<Rightarrow> if ps_free ps = 0 then None
           else Some (ps\<lparr>ps_conn := (ps_conn ps)[i := Holding], ps_free := ps_free ps - 1\<rparr>)
       | Holding \<Rightarrow> if is_done (s_pc (cs_sessions (ps_conf ps) ! i))
           then Some (ps\<lparr>ps_conn := (ps_conn ps)[i := Released], ps_free := Suc (ps_free ps)\<rparr>)
           else map_option (\<lambda>st'. ps\<lparr>ps_conf := st'\<rparr>) (conf_step cfg i (ps_conf ps))
       | Released \<Rightarrow> None)
    else None)"

fun run_psched :: "'r store_cfg \<Rightarrow> nat list \<Rightarrow> 'r pstate \<Rightarrow> 'r pstate option" where
  "run_psched cfg [] ps = Some ps"
| "run_psched cfg (i # sched) ps = (case pool_step cfg i ps of
      None \<Rightarrow> None
    | Some ps' \<Rightarrow> run_psched cfg sched ps')"

inductive pool_reach :: "'r store_cfg \<Rightarrow> nat \<Rightarrow> 'r ledger \<Rightarrow> string list \<Rightarrow> 'r pstate \<Rightarrow> bool"
  for cfg n c0 ts where
  init: "pool_reach cfg n c0 ts (pstart n c0 ts)"
| step: "pool_reach cfg n c0 ts ps \<Longrightarrow> pool_step cfg i ps = Some ps' \<Longrightarrow> pool_reach cfg n c0 ts ps'"

text \<open>
  Proof devices: the steps a request has left (\<open>pwork\<close>), the transaction state of each
  point of the route (\<open>txn_inv\<close>), and the pool invariant.
\<close>

fun conn_weight :: "conn \<Rightarrow> nat" where
  "conn_weight Waiting = 2"
| "conn_weight Holding = 1"
| "conn_weight Released = 0"

definition pwork :: "'r pstate \<Rightarrow> nat" where
  "pwork ps = work (ps_conf ps) + sum_list (map conn_weight (ps_conn ps))"

definition txn_inv :: "'r session \<Rightarrow> bool" where
  "txn_inv s \<longleftrightarrow> (case s_pc s of
      CBegin \<Rightarrow> s_txn s = None
    | CReread \<Rightarrow> s_txn s = None
    | CDone _ \<Rightarrow> s_txn s = None
    | _ \<Rightarrow> True)"

definition pool_inv :: "nat \<Rightarrow> 'r pstate \<Rightarrow> bool" where
  "pool_inv n ps \<longleftrightarrow>
     length (ps_conn ps) = length (cs_sessions (ps_conf ps)) \<and>
     ps_free ps + count_list (ps_conn ps) Holding = n \<and>
     (\<forall>j<length (ps_conn ps). txn_inv (cs_sessions (ps_conf ps) ! j) \<and>
        (ps_conn ps ! j = Waiting \<longrightarrow> s_pc (cs_sessions (ps_conf ps) ! j) = CBegin) \<and>
        (ps_conn ps ! j = Released \<longrightarrow> is_done (s_pc (cs_sessions (ps_conf ps) ! j))))"

section \<open>The pool invariant and the simulation\<close>

lemma txn_inv_step: "txn_inv s \<Longrightarrow> sess_step cfg lo lr c s = Some (c', s') \<Longrightarrow> txn_inv s'"
  by (cases "s_pc s")
    (auto simp: txn_inv_def sess_defs split: option.splits if_splits key_param.splits sum.splits prod.splits)

lemma pool_inv_start: "pool_inv n (pstart n c ts)"
  by (simp add: pool_inv_def pstart_def start_def new_session_def txn_inv_def)

lemma pool_inv_connect:
  assumes inv: "pool_inv n ps" and i: "i < length (ps_conn ps)" "ps_conn ps ! i = Waiting"
    and free: "ps_free ps \<noteq> 0"
  shows "pool_inv n (ps\<lparr>ps_conn := (ps_conn ps)[i := Holding], ps_free := ps_free ps - 1\<rparr>)"
proof -
  have "count_list ((ps_conn ps)[i := Holding]) Holding = Suc (count_list (ps_conn ps) Holding)"
    using count_list_update [OF i(1), of Holding Holding] i(2) by simp
  with inv i free show ?thesis by (auto simp: pool_inv_def nth_list_update)
qed

lemma pool_inv_release:
  assumes inv: "pool_inv n ps" and i: "i < length (ps_conn ps)" "ps_conn ps ! i = Holding"
    and fin: "is_done (s_pc (cs_sessions (ps_conf ps) ! i))"
  shows "pool_inv n (ps\<lparr>ps_conn := (ps_conn ps)[i := Released], ps_free := Suc (ps_free ps)\<rparr>)"
proof -
  have "Suc (count_list ((ps_conn ps)[i := Released]) Holding) = count_list (ps_conn ps) Holding"
    using count_list_update [OF i(1), of Released Holding] i(2) by simp
  with inv i fin show ?thesis by (auto simp: pool_inv_def nth_list_update)
qed

lemma pool_inv_statement:
  assumes inv: "pool_inv n ps" and i: "ps_conn ps ! i = Holding"
    and step: "conf_step cfg i (ps_conf ps) = Some st'"
  shows "pool_inv n (ps\<lparr>ps_conf := st'\<rparr>)"
proof -
  from step obtain c' s' lo lr where len: "i < length (cs_sessions (ps_conf ps))"
    and run: "sess_step cfg lo lr (cs_ledger (ps_conf ps)) (cs_sessions (ps_conf ps) ! i) = Some (c', s')"
    and st': "st' = \<lparr>cs_ledger = c', cs_sessions = (cs_sessions (ps_conf ps))[i := s']\<rparr>"
    by (rule conf_step_Some)
  from inv len have "txn_inv (cs_sessions (ps_conf ps) ! i)" by (simp add: pool_inv_def)
  from txn_inv_step [OF this run] have "txn_inv s'" .
  with inv i len st' show ?thesis by (auto simp: pool_inv_def nth_list_update)
qed

lemma pool_inv_step:
  assumes inv: "pool_inv n ps" and step: "pool_step cfg i ps = Some ps'"
  shows "pool_inv n ps'"
proof -
  from step have i: "i < length (ps_conn ps)" by (simp add: pool_step_def split: if_splits)
  show ?thesis
  proof (cases "ps_conn ps ! i")
    case Waiting
    with step i have "ps_free ps \<noteq> 0"
      "ps' = ps\<lparr>ps_conn := (ps_conn ps)[i := Holding], ps_free := ps_free ps - 1\<rparr>"
      by (simp_all add: pool_step_def split: if_splits)
    with pool_inv_connect [OF inv i Waiting] show ?thesis by simp
  next
    case Holding
    show ?thesis
    proof (cases "is_done (s_pc (cs_sessions (ps_conf ps) ! i))")
      case True
      with step i Holding have "ps' = ps\<lparr>ps_conn := (ps_conn ps)[i := Released], ps_free := Suc (ps_free ps)\<rparr>"
        by (simp add: pool_step_def)
      with pool_inv_release [OF inv i Holding True] show ?thesis by simp
    next
      case False
      with step i Holding obtain st' where "conf_step cfg i (ps_conf ps) = Some st'" "ps' = ps\<lparr>ps_conf := st'\<rparr>"
        by (auto simp: pool_step_def)
      with pool_inv_statement [OF inv Holding] show ?thesis by simp
    qed
  next
    case Released
    with step i show ?thesis by (simp add: pool_step_def)
  qed
qed

lemma pool_reach_inv: "pool_reach cfg n c0 ts ps \<Longrightarrow> pool_inv n ps \<and> conc_reach cfg c0 ts (ps_conf ps)"
proof (induction rule: pool_reach.induct)
  case init
  show ?case using pool_inv_start [of n c0 ts] conc_reach.init [of cfg c0 ts] by (simp add: pstart_def)
next
  case (step ps i ps')
  then have "pool_inv n ps'" by (blast intro: pool_inv_step)
  moreover have "conc_reach cfg c0 ts (ps_conf ps')"
    using step by (auto simp: pool_step_def intro: conc_reach.step split: if_splits conn.splits)
  ultimately show ?case ..
qed

section \<open>Progress\<close>

lemma txn_inv_idle: "txn_inv s \<Longrightarrow> s_pc s = CBegin \<or> is_done (s_pc s) \<Longrightarrow> s_txn s = None"
  by (cases "s_pc s") (auto simp: txn_inv_def)

lemma conf_step_done: "is_done (s_pc (cs_sessions st ! j)) \<Longrightarrow> conf_step cfg j st = None"
  by (cases "s_pc (cs_sessions st ! j)") (simp_all add: conf_step_def)

text \<open>A session with an open transaction holds a client.\<close>

lemma txn_holding:
  assumes inv: "pool_inv n ps" and j: "j < length (ps_conn ps)"
    and txn: "s_txn (cs_sessions (ps_conf ps) ! j) \<noteq> None"
  shows "ps_conn ps ! j = Holding"
proof -
  from inv j have ti: "txn_inv (cs_sessions (ps_conf ps) ! j)" by (simp add: pool_inv_def)
  from inv j have "ps_conn ps ! j \<noteq> Waiting \<and> ps_conn ps ! j \<noteq> Released"
    using txn_inv_idle [OF ti] txn by (auto simp: pool_inv_def)
  then show ?thesis by (cases "ps_conn ps ! j") simp_all
qed

lemma pool_step_connect:
  "i < length (ps_conn ps) \<Longrightarrow> ps_conn ps ! i = Waiting \<Longrightarrow> ps_free ps \<noteq> 0 \<Longrightarrow>
   pool_step cfg i ps = Some (ps\<lparr>ps_conn := (ps_conn ps)[i := Holding], ps_free := ps_free ps - 1\<rparr>)"
  by (simp add: pool_step_def)

lemma pool_step_release:
  "i < length (ps_conn ps) \<Longrightarrow> ps_conn ps ! i = Holding \<Longrightarrow> is_done (s_pc (cs_sessions (ps_conf ps) ! i)) \<Longrightarrow>
   pool_step cfg i ps = Some (ps\<lparr>ps_conn := (ps_conn ps)[i := Released], ps_free := Suc (ps_free ps)\<rparr>)"
  by (simp add: pool_step_def)

lemma pool_step_statement:
  "i < length (ps_conn ps) \<Longrightarrow> ps_conn ps ! i = Holding \<Longrightarrow> \<not> is_done (s_pc (cs_sessions (ps_conf ps) ! i)) \<Longrightarrow>
   conf_step cfg i (ps_conf ps) = Some st' \<Longrightarrow> pool_step cfg i ps = Some (ps\<lparr>ps_conf := st'\<rparr>)"
  by (simp add: pool_step_def)

lemma holding_progress:
  assumes inv: "pool_inv n ps" and cinv: "conc_inv c0 (ps_conf ps)" "live_inv (ps_conf ps)"
    and i: "i < length (ps_conn ps)" "ps_conn ps ! i = Holding"
  shows "\<exists>j ps'. pool_step cfg j ps = Some ps'"
proof (cases "is_done (s_pc (cs_sessions (ps_conf ps) ! i))")
  case True
  from pool_step_release [OF i this] show ?thesis by blast
next
  case False
  from inv i have li: "i < length (cs_sessions (ps_conf ps))" by (simp add: pool_inv_def)
  from progress [OF cinv li False] obtain j where
    j: "conf_step cfg j (ps_conf ps) \<noteq> None" "j = i \<or> s_txn (cs_sessions (ps_conf ps) ! j) \<noteq> None"
    by blast
  from j(1) have lj: "j < length (ps_conn ps)" using inv by (auto simp: conf_step_def pool_inv_def split: if_splits)
  from j(2) have hj: "ps_conn ps ! j = Holding"
    using i(2) txn_holding [OF inv lj] by blast
  have "\<not> is_done (s_pc (cs_sessions (ps_conf ps) ! j))"
  proof
    assume "is_done (s_pc (cs_sessions (ps_conf ps) ! j))"
    from conf_step_done [OF this] j(1) show False by simp
  qed
  moreover from j(1) obtain st' where "conf_step cfg j (ps_conf ps) = Some st'" by blast
  ultimately show ?thesis using pool_step_statement [OF lj hj] by blast
qed

lemma pool_progress:
  assumes reach: "pool_reach cfg n c0 ts ps" and n: "0 < n"
    and busy: "\<not> list_all (\<lambda>x. x = Released) (ps_conn ps)"
  shows "\<exists>i ps'. pool_step cfg i ps = Some ps'"
proof -
  from pool_reach_inv [OF reach] have inv: "pool_inv n ps" and cr: "conc_reach cfg c0 ts (ps_conf ps)" by simp_all
  from conc_reach_inv [OF cr] have cinv: "conc_inv c0 (ps_conf ps)" "live_inv (ps_conf ps)" by simp_all
  show ?thesis
  proof (cases "\<exists>i<length (ps_conn ps). ps_conn ps ! i = Holding")
    case True
    then obtain i where "i < length (ps_conn ps)" "ps_conn ps ! i = Holding" by blast
    from holding_progress [OF inv cinv this] show ?thesis .
  next
    case False
    then have "count_list (ps_conn ps) Holding = 0" by (simp add: count_list_zero)
    with inv n have free: "ps_free ps \<noteq> 0" by (simp add: pool_inv_def)
    from busy obtain i where i: "i < length (ps_conn ps)" "ps_conn ps ! i \<noteq> Released"
      by (auto simp: list_all_length)
    with False have "ps_conn ps ! i = Waiting" by (cases "ps_conn ps ! i") auto
    from pool_step_connect [OF i(1) this free] show ?thesis by blast
  qed
qed

section \<open>Every step consumes work\<close>

lemma pool_step_pwork: "pool_step cfg i ps = Some ps' \<Longrightarrow> pwork ps' < pwork ps"
proof -
  assume step: "pool_step cfg i ps = Some ps'"
  then have i: "i < length (ps_conn ps)" by (simp add: pool_step_def split: if_splits)
  note upd = sum_list_map_update [OF i, of conn_weight]
  show ?thesis
  proof (cases "ps_conn ps ! i")
    case Waiting
    with step i have "ps' = ps\<lparr>ps_conn := (ps_conn ps)[i := Holding], ps_free := ps_free ps - 1\<rparr>"
      by (simp add: pool_step_def split: if_splits)
    with upd [of Holding] Waiting show ?thesis by (simp add: pwork_def)
  next
    case Holding
    show ?thesis
    proof (cases "is_done (s_pc (cs_sessions (ps_conf ps) ! i))")
      case True
      with step i Holding have "ps' = ps\<lparr>ps_conn := (ps_conn ps)[i := Released], ps_free := Suc (ps_free ps)\<rparr>"
        by (simp add: pool_step_def)
      with upd [of Released] Holding show ?thesis by (simp add: pwork_def)
    next
      case False
      with step i Holding obtain st' where "conf_step cfg i (ps_conf ps) = Some st'" "ps' = ps\<lparr>ps_conf := st'\<rparr>"
        by (auto simp: pool_step_def)
      with conf_step_work show ?thesis by (fastforce simp: pwork_def)
    qed
  next
    case Released
    with step i show ?thesis by (simp add: pool_step_def)
  qed
qed

lemma run_psched_reach:
  "run_psched cfg sched ps = Some ps' \<Longrightarrow> pool_reach cfg n c0 ts ps \<Longrightarrow> pool_reach cfg n c0 ts ps'"
proof (induction sched arbitrary: ps)
  case (Cons i sched)
  then obtain ps1 where step: "pool_step cfg i ps = Some ps1" and run: "run_psched cfg sched ps1 = Some ps'"
    by (auto split: option.splits)
  from Cons.IH [OF run pool_reach.step [OF Cons.prems(2) step]] show ?case .
qed simp

section \<open>Properties\<close>

text \<open>C16: In every state reached by confirm requests sharing a pool of n clients, the free and the checked-out clients add up to n, and a request that holds no client has no open transaction.\<close>

theorem pool_clients:
  assumes "pool_reach cfg n c0 ts ps"
  shows "ps_free ps + count_list (ps_conn ps) Holding = n \<and>
    (\<forall>j<length (ps_conn ps). ps_conn ps ! j \<noteq> Holding \<longrightarrow> s_txn (cs_sessions (ps_conf ps) ! j) = None)"
proof -
  from pool_reach_inv [OF assms] have inv: "pool_inv n ps" by simp
  then have "\<forall>j<length (ps_conn ps). ps_conn ps ! j \<noteq> Holding \<longrightarrow> s_txn (cs_sessions (ps_conf ps) ! j) = None"
    using txn_holding by blast
  with inv show ?thesis by (simp add: pool_inv_def)
qed

text \<open>C17: With a pool of at least one client, from every reachable state some schedule brings every confirm request to its response with every client released back to the pool: waiting for clients and for row locks never deadlocks.\<close>

theorem pool_all_release:
  assumes "0 < n" "pool_reach cfg n c0 ts ps"
  shows "\<exists>sched ps'. run_psched cfg sched ps = Some ps' \<and> list_all (\<lambda>x. x = Released) (ps_conn ps') \<and>
    ps_free ps' = n \<and> list_all (\<lambda>s. is_done (s_pc s)) (cs_sessions (ps_conf ps'))"
  using assms(2)
proof (induction "pwork ps" arbitrary: ps rule: less_induct)
  case less
  show ?case
  proof (cases "list_all (\<lambda>x. x = Released) (ps_conn ps)")
    case True
    from pool_reach_inv [OF less.prems] have inv: "pool_inv n ps" by simp
    with True have "count_list (ps_conn ps) Holding = 0"
      by (simp add: count_list_zero list_all_length)
    with inv True have "ps_free ps = n \<and> list_all (\<lambda>s. is_done (s_pc s)) (cs_sessions (ps_conf ps))"
      by (auto simp: pool_inv_def list_all_length)
    with True have "run_psched cfg [] ps = Some ps \<and> list_all (\<lambda>x. x = Released) (ps_conn ps) \<and>
        ps_free ps = n \<and> list_all (\<lambda>s. is_done (s_pc s)) (cs_sessions (ps_conf ps))" by simp
    then show ?thesis by blast
  next
    case False
    from pool_progress [OF less.prems assms(1) False] obtain i ps1 where step: "pool_step cfg i ps = Some ps1"
      by blast
    have "pool_reach cfg n c0 ts ps1" by (rule pool_reach.step [OF less.prems step])
    from less.hyps [OF pool_step_pwork [OF step] this] obtain sched ps' where
      run: "run_psched cfg sched ps1 = Some ps'" and fin: "list_all (\<lambda>x. x = Released) (ps_conn ps') \<and>
        ps_free ps' = n \<and> list_all (\<lambda>s. is_done (s_pc s)) (cs_sessions (ps_conf ps'))" by blast
    from step run have "run_psched cfg (i # sched) ps = Some ps'" by simp
    with fin show ?thesis by blast
  qed
qed

section \<open>Runs on the demo ledger\<close>

lemmas pool_defs = pool_step_def pstart_def sched_defs demo_defs confirm_effect_def

lemma demo_pool_serial:
  "run_psched pg_cfg [0, 0, 0, 0, 0, 0, 0, 0, 1, 1, 1, 1, 1] (pstart 1 demo_pending [''1'', ''1'']) \<noteq> None"
  by (simp add: pool_defs)

lemma demo_pool_start: "run_psched pg_cfg [0, 0] (pstart 1 demo_pending [''1'', ''1'']) \<noteq> None"
  by (simp add: pool_defs)

theorem pool_clients_witness:
  "\<exists>ps. run_psched pg_cfg [0, 0] (pstart 1 demo_pending [''1'', ''1'']) = Some ps \<and>
     ps_free ps + count_list (ps_conn ps) Holding = 1 \<and>
     (\<forall>j<length (ps_conn ps). ps_conn ps ! j \<noteq> Holding \<longrightarrow> s_txn (cs_sessions (ps_conf ps) ! j) = None)"
proof -
  from demo_pool_start obtain ps where run: "run_psched pg_cfg [0, 0] (pstart 1 demo_pending [''1'', ''1'']) = Some ps"
    by blast
  from pool_clients [OF run_psched_reach [OF run pool_reach.init]] run show ?thesis by blast
qed

theorem pool_all_release_witness:
  "\<exists>sched ps'. run_psched pg_cfg sched (pstart 1 demo_pending [''1'', ''1'']) = Some ps' \<and>
     list_all (\<lambda>x. x = Released) (ps_conn ps') \<and> ps_free ps' = 1 \<and>
     list_all (\<lambda>s. is_done (s_pc s)) (cs_sessions (ps_conf ps'))"
  using pool_all_release [OF _ pool_reach.init, of 1 pg_cfg demo_pending "[''1'', ''1'']"] by simp

end
