(* ===== verification/Pool_Credit.thy ===== *)
theory Pool_Credit
  imports Pool
begin

text \<open>
  What the pool does to the double credit of \<open>Concurrency.conc_double_credit\<close>: with a
  pool of one client (\<open>pg.Pool\<close> with \<open>max: 1\<close>) at most one confirm request has an open
  transaction at any time, so a request reads the operation only after every earlier
  confirmation of it has committed, and no operation is credited twice
  (\<open>pool_single_credit\<close>); with two clients the race runs again
  (\<open>pool_two_clients_double_credit\<close>). The invariant: the active request's stage
  (\<open>stage_inv\<close>: between its \<open>SELECT\<close> and its \<open>COMMIT\<close> the operation it read is still
  pending in the committed tables, and its buffer holds only that operation, confirmed),
  every committed credit names an operation now confirmed (\<open>credit_inv\<close>), and at most
  one request has credited each operation (\<open>cred_count\<close>).
\<close>

definition idle :: "'r session \<Rightarrow> bool" where
  "idle s \<longleftrightarrow> s_pc s = CBegin \<or> is_done (s_pc s)"

definition stage_inv :: "'r store_cfg \<Rightarrow> 'r ledger \<Rightarrow> 'r session \<Rightarrow> bool" where
  "stage_inv cfg c s \<longleftrightarrow> (case s_pc s of
      CBegin \<Rightarrow> s_txn s = None \<and> s_credit s = None
    | CFind \<Rightarrow> s_credit s = None \<and> (\<exists>wb. s_txn s = Some wb \<and> wb_ops wb = Map.empty)
    | CSetStatus op \<Rightarrow> s_credit s = None \<and> (\<exists>wb k. s_txn s = Some wb \<and> wb_ops wb = Map.empty \<and>
        operation_key cfg (s_id s) = KeyOf k \<and> operations c k = Some op \<and> op_status op = Pending)
    | CAddBalance op \<Rightarrow> s_credit s = None \<and> (\<exists>wb k. s_txn s = Some wb \<and>
        wb_ops wb = [k \<mapsto> op\<lparr>op_status := Confirmed\<rparr>] \<and>
        operation_key cfg (s_id s) = KeyOf k \<and> operations c k = Some op \<and> op_status op = Pending)
    | CCommit op \<Rightarrow> s_credit s = None \<and> (\<exists>wb k. s_txn s = Some wb \<and>
        wb_ops wb = [k \<mapsto> op\<lparr>op_status := Confirmed\<rparr>] \<and>
        operation_key cfg (s_id s) = KeyOf k \<and> operations c k = Some op \<and> op_status op = Pending)
    | _ \<Rightarrow> True)"

definition credit_inv :: "'r store_cfg \<Rightarrow> 'r ledger \<Rightarrow> 'r session \<Rightarrow> bool" where
  "credit_inv cfg c s \<longleftrightarrow> (s_credit s \<noteq> None \<longrightarrow>
     (\<exists>k op. operation_key cfg (s_id s) = KeyOf k \<and> operations c k = Some op \<and> op_status op = Confirmed))"

definition cred_count :: "'r store_cfg \<Rightarrow> 'r session list \<Rightarrow> oid \<Rightarrow> nat" where
  "cred_count cfg ss k = length (filter (\<lambda>s. s_credit s \<noteq> None \<and> operation_key cfg (s_id s) = KeyOf k) ss)"

definition safe_inv :: "'r store_cfg \<Rightarrow> 'r cstate \<Rightarrow> bool" where
  "safe_inv cfg st \<longleftrightarrow>
     (\<forall>j<length (cs_sessions st). stage_inv cfg (cs_ledger st) (cs_sessions st ! j) \<and>
        credit_inv cfg (cs_ledger st) (cs_sessions st ! j)) \<and>
     (\<forall>k. cred_count cfg (cs_sessions st) k \<le> 1)"

section \<open>A single active transaction keeps the credits apart\<close>

lemma sess_safe:
  assumes st: "stage_inv cfg c s" and run: "sess_step cfg lo lr c s = Some (c', s')"
  shows "stage_inv cfg c' s' \<and>
    (c' = c \<and> s_credit s' = s_credit s \<or>
     (\<exists>k op. operation_key cfg (s_id s) = KeyOf k \<and> operations c k = Some op \<and> op_status op = Pending \<and>
        s_credit s = None \<and> s_credit s' = Some op \<and>
        operations c' = (operations c)(k \<mapsto> op\<lparr>op_status := Confirmed\<rparr>)))"
  using assms
  by (cases "s_pc s")
    (auto simp: stage_inv_def sess_defs view_of_def apply_wbuf_def empty_wbuf_def put_op_def put_bal_def
      split: option.splits if_splits key_param.splits sum.splits prod.splits)


lemma credit_inv_confirm:
  assumes "credit_inv cfg c s" "operations c' = (operations c)(k \<mapsto> op\<lparr>op_status := Confirmed\<rparr>)"
  shows "credit_inv cfg c' s"
  using assms by (auto simp: credit_inv_def)

lemma idle_stage: "idle s \<Longrightarrow> stage_inv cfg c s \<Longrightarrow> stage_inv cfg c' s"
  by (cases "s_pc s") (auto simp: idle_def stage_inv_def)

lemma safe_inv_step:
  assumes inv: "safe_inv cfg st" and others: "\<forall>j<length (cs_sessions st). j \<noteq> i \<longrightarrow> idle (cs_sessions st ! j)"
    and step: "conf_step cfg i st = Some st'"
  shows "safe_inv cfg st'"
proof -
  let ?c = "cs_ledger st" and ?ss = "cs_sessions st"
  from step obtain c' s' lo lr where i: "i < length ?ss" and run: "sess_step cfg lo lr ?c (?ss ! i) = Some (c', s')"
    and st': "st' = \<lparr>cs_ledger = c', cs_sessions = ?ss[i := s']\<rparr>"
    by (rule conf_step_Some)
  from inv i have si: "stage_inv cfg ?c (?ss ! i)" "credit_inv cfg ?c (?ss ! i)" by (simp_all add: safe_inv_def)
  have id: "s_id s' = s_id (?ss ! i)" by (rule sess_step_id [OF run])
  from sess_safe [OF si(1) run] have st_i: "stage_inv cfg c' s'" and
    cases: "c' = ?c \<and> s_credit s' = s_credit (?ss ! i) \<or>
     (\<exists>k op. operation_key cfg (s_id (?ss ! i)) = KeyOf k \<and> operations ?c k = Some op \<and> op_status op = Pending \<and>
        s_credit (?ss ! i) = None \<and> s_credit s' = Some op \<and>
        operations c' = (operations ?c)(k \<mapsto> op\<lparr>op_status := Confirmed\<rparr>))" by blast+
  note upd = length_filter_update [OF i, of _ s']
  from cases show ?thesis
  proof
    assume same: "c' = ?c \<and> s_credit s' = s_credit (?ss ! i)"
    have "credit_inv cfg c' s'" using si(2) same id by (simp add: credit_inv_def)
    moreover have "cred_count cfg (?ss[i := s']) k = cred_count cfg ?ss k" for k
      using upd [of "\<lambda>s. s_credit s \<noteq> None \<and> operation_key cfg (s_id s) = KeyOf k"] same id
      by (simp add: cred_count_def)
    ultimately show ?thesis using inv st_i same st' i by (auto simp: safe_inv_def nth_list_update)
  next
    assume "\<exists>k op. operation_key cfg (s_id (?ss ! i)) = KeyOf k \<and> operations ?c k = Some op \<and> op_status op = Pending \<and>
        s_credit (?ss ! i) = None \<and> s_credit s' = Some op \<and>
        operations c' = (operations ?c)(k \<mapsto> op\<lparr>op_status := Confirmed\<rparr>)"
    then obtain k op where key: "operation_key cfg (s_id (?ss ! i)) = KeyOf k" and pend: "operations ?c k = Some op"
      "op_status op = Pending" and cr: "s_credit (?ss ! i) = None" "s_credit s' = Some op"
      and ops: "operations c' = (operations ?c)(k \<mapsto> op\<lparr>op_status := Confirmed\<rparr>)" by blast
    have ci: "credit_inv cfg c' s'" using key id ops cr by (simp add: credit_inv_def)
    have others': "\<forall>j<length ?ss. j \<noteq> i \<longrightarrow> stage_inv cfg c' (?ss ! j) \<and> credit_inv cfg c' (?ss ! j)"
    proof (intro allI impI)
      fix j assume j: "j < length ?ss" "j \<noteq> i"
      with inv others have "idle (?ss ! j)" "stage_inv cfg ?c (?ss ! j)" "credit_inv cfg ?c (?ss ! j)"
        by (auto simp: safe_inv_def)
      with idle_stage credit_inv_confirm [OF _ ops]
      show "stage_inv cfg c' (?ss ! j) \<and> credit_inv cfg c' (?ss ! j)" by blast
    qed
    have zero: "cred_count cfg ?ss k = 0"
    proof -
      have "\<not> (s_credit (?ss ! j) \<noteq> None \<and> operation_key cfg (s_id (?ss ! j)) = KeyOf k)" if "j < length ?ss" for j
      proof
        assume a: "s_credit (?ss ! j) \<noteq> None \<and> operation_key cfg (s_id (?ss ! j)) = KeyOf k"
        with inv that have "credit_inv cfg ?c (?ss ! j)" by (simp add: safe_inv_def)
        with a pend show False by (auto simp: credit_inv_def)
      qed
      then have "\<forall>x\<in>set ?ss. \<not> (s_credit x \<noteq> None \<and> operation_key cfg (s_id x) = KeyOf k)"
        by (metis in_set_conv_nth)
      then show ?thesis by (simp add: cred_count_def filter_empty_conv)
    qed
    have "cred_count cfg (?ss[i := s']) k' \<le> 1" for k'
    proof -
      have "cred_count cfg (?ss[i := s']) k' + 0 = cred_count cfg ?ss k' + (if k' = k then 1 else 0)"
        using upd [of "\<lambda>s. s_credit s \<noteq> None \<and> operation_key cfg (s_id s) = KeyOf k'"] id key cr
        by (simp add: cred_count_def)
      with zero inv show ?thesis by (cases "k' = k") (auto simp: safe_inv_def)
    qed
    with others' st_i ci st' i show ?thesis by (auto simp: safe_inv_def nth_list_update)
  qed
qed


section \<open>A pool of one client\<close>

lemma one_holder:
  assumes inv: "pool_inv (Suc 0) ps" and i: "i < length (ps_conn ps)" "ps_conn ps ! i = Holding"
    and j: "j < length (ps_conn ps)" "j \<noteq> i"
  shows "ps_conn ps ! j \<noteq> Holding"
proof
  assume h: "ps_conn ps ! j = Holding"
  have "count_list ((ps_conn ps)[i := Waiting]) Holding + 1 = count_list (ps_conn ps) Holding"
    using count_list_update [OF i(1), of Waiting Holding] i(2) by simp
  moreover have "0 < count_list ((ps_conn ps)[i := Waiting]) Holding"
    using count_list_pos [of j "(ps_conn ps)[i := Waiting]" Holding] j h by simp
  ultimately show False using inv by (simp add: pool_inv_def)
qed

lemma others_idle:
  assumes inv: "pool_inv (Suc 0) ps" and i: "i < length (ps_conn ps)" "ps_conn ps ! i = Holding"
  shows "\<forall>j<length (cs_sessions (ps_conf ps)). j \<noteq> i \<longrightarrow> idle (cs_sessions (ps_conf ps) ! j)"
proof (intro allI impI)
  fix j assume j: "j < length (cs_sessions (ps_conf ps))" "j \<noteq> i"
  with inv have lj: "j < length (ps_conn ps)" by (simp add: pool_inv_def)
  from one_holder [OF inv i lj j(2)] inv lj show "idle (cs_sessions (ps_conf ps) ! j)"
    by (cases "ps_conn ps ! j") (auto simp: pool_inv_def idle_def)
qed

lemma safe_inv_start: "safe_inv cfg (start c ts)"
  by (auto simp: safe_inv_def start_def new_session_def stage_inv_def credit_inv_def cred_count_def)

lemma pool_step_cases:
  "pool_step cfg i ps = Some ps' \<Longrightarrow> ps_conf ps' = ps_conf ps \<or>
     (i < length (ps_conn ps) \<and> ps_conn ps ! i = Holding \<and> conf_step cfg i (ps_conf ps) = Some (ps_conf ps'))"
  by (auto simp: pool_step_def split: if_splits conn.splits)

lemma pool_safe: "pool_reach cfg (Suc 0) c0 ts ps \<Longrightarrow> safe_inv cfg (ps_conf ps)"
proof (induction rule: pool_reach.induct)
  case init
  show ?case by (simp add: pstart_def safe_inv_start)
next
  case (step ps i ps')
  from pool_step_cases [OF step.hyps(2)] show ?case
  proof
    assume "ps_conf ps' = ps_conf ps"
    with step.IH show ?thesis by simp
  next
    assume h: "i < length (ps_conn ps) \<and> ps_conn ps ! i = Holding \<and> conf_step cfg i (ps_conf ps) = Some (ps_conf ps')"
    from pool_reach_inv [OF step.hyps(1)] have "pool_inv (Suc 0) ps" by simp
    from others_idle [OF this] h have "\<forall>j<length (cs_sessions (ps_conf ps)). j \<noteq> i \<longrightarrow> idle (cs_sessions (ps_conf ps) ! j)"
      by blast
    from safe_inv_step [OF step.IH this] h show ?thesis by blast
  qed
qed

text \<open>C18: With a pool of one client, in every reachable state at most one confirm request has committed a credit for the operation with a given id: the double credit needs two clients.\<close>

theorem pool_single_credit:
  "pool_reach cfg 1 c0 ts ps \<Longrightarrow>
   length (filter (\<lambda>s. s_credit s \<noteq> None \<and> operation_key cfg (s_id s) = KeyOf k) (cs_sessions (ps_conf ps))) \<le> 1"
  using pool_safe [of cfg c0 ts ps] by (simp add: safe_inv_def cred_count_def)

section \<open>Runs on the demo ledger\<close>

text \<open>With two clients the race of \<open>Concurrency.conc_double_credit\<close> runs under the pool.\<close>

lemma pool_two_clients_double_credit:
  "\<exists>ps. run_psched pg_cfg [0, 1, 0, 0, 1, 1, 0, 0, 0, 0, 1, 1, 1, 1] (pstart 2 demo_pending [''1'', ''1'']) = Some ps \<and>
     length (filter (\<lambda>s. s_credit s \<noteq> None \<and> operation_key pg_cfg (s_id s) = KeyOf 1) (cs_sessions (ps_conf ps))) = 2"
  by (simp add: pool_defs)

theorem pool_single_credit_witness:
  "\<exists>ps. run_psched pg_cfg [0, 0, 0, 0, 0, 0, 0, 0, 1, 1, 1, 1, 1] (pstart 1 demo_pending [''1'', ''1'']) = Some ps \<and>
     length (filter (\<lambda>s. s_credit s \<noteq> None \<and> operation_key pg_cfg (s_id s) = KeyOf 1) (cs_sessions (ps_conf ps))) \<le> 1"
proof -
  from demo_pool_serial obtain ps where
    run: "run_psched pg_cfg [0, 0, 0, 0, 0, 0, 0, 0, 1, 1, 1, 1, 1] (pstart 1 demo_pending [''1'', ''1'']) = Some ps"
    by blast
  from pool_single_credit [OF run_psched_reach [OF run pool_reach.init]] run show ?thesis by blast
qed

end
