(* ===== verification/Visibility.thy ===== *)
theory Visibility
  imports Concurrency
begin

text \<open>
  Atomicity of the confirm route under every interleaving of concurrent confirmations
  (spec.md 4.1 and 4.2): a transaction's writes become visible only at its \<open>COMMIT\<close>, and
  the route's \<open>COMMIT\<close> makes its status change and its credit visible together. So in
  every reachable state an operation confirmed in the committed tables was confirmed at
  the start or has a committed confirmation of a request naming it
  (\<open>conc_confirmed_credited\<close>), and every committed confirmation names an operation
  that is confirmed (\<open>conc_credit_confirmed\<close>). When all requests for an operation
  that exists and is pending have answered, at least one of them credited it
  (\<open>conc_pending_credited\<close>). With \<open>Concurrency.conc_double_credit\<close> this settles
  spec.md 8's "exactly one credit" as at least one, and not at most one.

  The invariants: \<open>vis_local\<close> says what a request's own transaction holds at each
  point of the route (its buffer holds only its own operation, confirmed, between the
  status \<open>UPDATE\<close> and the \<open>COMMIT\<close>); \<open>vis_ledger\<close> ties it to the committed tables;
  \<open>fin_inv\<close> says what a request that has answered, or is about to, has seen. Each
  statement of the route is one lemma per point of the route (\<open>vis_begin\<close> ...
  \<open>vis_done\<close>, \<open>fin_begin\<close> ... \<open>fin_done\<close>).
\<close>

section \<open>Invariants\<close>

definition buf_ops :: "'r session \<Rightarrow> oid \<rightharpoonup> 'r operation" where
  "buf_ops s = (case s_txn s of None \<Rightarrow> Map.empty | Some wb \<Rightarrow> wb_ops wb)"

definition at_credit :: "'r cpc \<Rightarrow> bool" where
  "at_credit pc \<longleftrightarrow> (case pc of CAddBalance _ \<Rightarrow> True | CCommit _ \<Rightarrow> True | _ \<Rightarrow> False)"

definition in_txn :: "'r cpc \<Rightarrow> bool" where
  "in_txn pc \<longleftrightarrow> (case pc of CFind \<Rightarrow> True | CSetStatus _ \<Rightarrow> True | CAddBalance _ \<Rightarrow> True
     | CCommit _ \<Rightarrow> True | _ \<Rightarrow> False)"

definition vis_local :: "'r store_cfg \<Rightarrow> 'r session \<Rightarrow> bool" where
  "vis_local cfg s \<longleftrightarrow>
     (in_txn (s_pc s) \<longrightarrow> s_txn s \<noteq> None) \<and>
     (s_pc s = CBegin \<or> in_txn (s_pc s) \<longrightarrow> s_credit s = None) \<and>
     (\<forall>k x. buf_ops s k = Some x \<longrightarrow>
        op_status x = Confirmed \<and> operation_key cfg (s_id s) = KeyOf k \<and> at_credit (s_pc s)) \<and>
     (at_credit (s_pc s) \<longrightarrow> (\<exists>k. operation_key cfg (s_id s) = KeyOf k \<and> buf_ops s k \<noteq> None))"

definition vis_ledger :: "'r store_cfg \<Rightarrow> 'r ledger \<Rightarrow> 'r session \<Rightarrow> bool" where
  "vis_ledger cfg c s \<longleftrightarrow>
     (\<forall>op. s_pc s = CSetStatus op \<longrightarrow> (\<exists>k. operation_key cfg (s_id s) = KeyOf k \<and> operations c k \<noteq> None)) \<and>
     (s_credit s \<noteq> None \<longrightarrow>
        (\<exists>k op. operation_key cfg (s_id s) = KeyOf k \<and> operations c k = Some op \<and> op_status op = Confirmed))"

definition vis_inv :: "'r store_cfg \<Rightarrow> 'r ledger \<Rightarrow> 'r session \<Rightarrow> bool" where
  "vis_inv cfg c s \<longleftrightarrow> vis_local cfg s \<and> vis_ledger cfg c s"

lemmas vis_defs = vis_inv_def vis_local_def vis_ledger_def

definition confirmed_at :: "'r ledger \<Rightarrow> oid \<Rightarrow> bool" where
  "confirmed_at c k \<longleftrightarrow> (\<exists>op. operations c k = Some op \<and> op_status op = Confirmed)"

definition vis_state :: "'r store_cfg \<Rightarrow> 'r ledger \<Rightarrow> 'r cstate \<Rightarrow> bool" where
  "vis_state cfg c0 st \<longleftrightarrow>
     (\<forall>j<length (cs_sessions st). vis_inv cfg (cs_ledger st) (cs_sessions st ! j)) \<and>
     (\<forall>k. confirmed_at (cs_ledger st) k \<longrightarrow> confirmed_at c0 k \<or>
        (\<exists>j<length (cs_sessions st). s_credit (cs_sessions st ! j) \<noteq> None \<and>
           operation_key cfg (s_id (cs_sessions st ! j)) = KeyOf k))"

definition fin_inv :: "'r store_cfg \<Rightarrow> 'r ledger \<Rightarrow> 'r ledger \<Rightarrow> 'r session \<Rightarrow> bool" where
  "fin_inv cfg c0 c s \<longleftrightarrow> (\<forall>k. operation_key cfg (s_id s) = KeyOf k \<longrightarrow> operations c0 k \<noteq> None \<longrightarrow>
     (case s_pc s of
        CRollback r \<Rightarrow> confirmed_at c k
      | CCatch \<Rightarrow> False
      | CReread \<Rightarrow> s_credit s \<noteq> None
      | CDone r \<Rightarrow> s_credit s \<noteq> None \<or> confirmed_at c k
      | _ \<Rightarrow> True))"

definition fin_state :: "'r store_cfg \<Rightarrow> 'r ledger \<Rightarrow> 'r cstate \<Rightarrow> bool" where
  "fin_state cfg c0 st \<longleftrightarrow>
     (\<forall>j<length (cs_sessions st). fin_inv cfg c0 (cs_ledger st) (cs_sessions st ! j)) \<and>
     (\<forall>k. operations c0 k \<noteq> None \<longrightarrow> operations (cs_ledger st) k \<noteq> None)"

section \<open>Each statement keeps the visibility invariant\<close>

lemma vis_begin:
  assumes pc: "s_pc s = CBegin" and inv: "vis_inv cfg c s" and run: "sess_step cfg lo lr c s = Some (c', s')"
  shows "vis_inv cfg c' s' \<and> (s_credit s \<noteq> None \<longrightarrow> s_credit s' = s_credit s) \<and>
    (operations c' = operations c \<or> (s_credit s' \<noteq> None \<and> operations c' = operations c ++ buf_ops s))"
  using assms
  by (auto simp: vis_defs in_txn_def buf_ops_def at_credit_def sess_defs view_of_def apply_wbuf_def empty_wbuf_def
      put_op_def put_bal_def split: option.splits if_splits key_param.splits sum.splits prod.splits)

lemma vis_find:
  assumes pc: "s_pc s = CFind" and inv: "vis_inv cfg c s" and run: "sess_step cfg lo lr c s = Some (c', s')"
  shows "vis_inv cfg c' s' \<and> (s_credit s \<noteq> None \<longrightarrow> s_credit s' = s_credit s) \<and>
    (operations c' = operations c \<or> (s_credit s' \<noteq> None \<and> operations c' = operations c ++ buf_ops s))"
  using assms
  by (auto simp: vis_defs in_txn_def buf_ops_def at_credit_def sess_defs view_of_def apply_wbuf_def empty_wbuf_def
      put_op_def put_bal_def split: option.splits if_splits key_param.splits sum.splits prod.splits)

lemma vis_set_status:
  assumes pc: "s_pc s = CSetStatus op" and inv: "vis_inv cfg c s" and run: "sess_step cfg lo lr c s = Some (c', s')"
  shows "vis_inv cfg c' s' \<and> (s_credit s \<noteq> None \<longrightarrow> s_credit s' = s_credit s) \<and>
    (operations c' = operations c \<or> (s_credit s' \<noteq> None \<and> operations c' = operations c ++ buf_ops s))"
  using assms
  by (auto simp: vis_defs in_txn_def buf_ops_def at_credit_def sess_defs view_of_def apply_wbuf_def empty_wbuf_def
      put_op_def put_bal_def split: option.splits if_splits key_param.splits sum.splits prod.splits)

lemma vis_add_balance:
  assumes pc: "s_pc s = CAddBalance op" and inv: "vis_inv cfg c s" and run: "sess_step cfg lo lr c s = Some (c', s')"
  shows "vis_inv cfg c' s' \<and> (s_credit s \<noteq> None \<longrightarrow> s_credit s' = s_credit s) \<and>
    (operations c' = operations c \<or> (s_credit s' \<noteq> None \<and> operations c' = operations c ++ buf_ops s))"
proof -
  from inv pc obtain wb where txn: "s_txn s = Some wb" by (auto simp: vis_defs in_txn_def)
  have eff: "c' = c \<and> s_pc s' = CCommit op \<and> s_id s' = s_id s \<and> s_credit s' = s_credit s \<and>
      s_txn s' \<noteq> None \<and> buf_ops s' = buf_ops s"
    using run pc txn
    by (auto simp: sess_run_def t_add_balance_def put_bal_def buf_ops_def split: option.splits if_splits)
  from inv pc have "vis_inv cfg c s" by simp
  with eff pc show ?thesis by (simp add: vis_defs in_txn_def at_credit_def)
qed

lemma vis_commit:
  assumes pc: "s_pc s = CCommit op" and inv: "vis_inv cfg c s" and run: "sess_step cfg lo lr c s = Some (c', s')"
  shows "vis_inv cfg c' s' \<and> (s_credit s \<noteq> None \<longrightarrow> s_credit s' = s_credit s) \<and>
    (operations c' = operations c \<or> (s_credit s' \<noteq> None \<and> operations c' = operations c ++ buf_ops s))"
proof -
  from inv pc obtain wb where txn: "s_txn s = Some wb" by (auto simp: vis_defs in_txn_def)
  have eff: "operations c' = operations c ++ buf_ops s \<and> s_pc s' = CReread \<and> s_id s' = s_id s \<and>
      s_credit s' = Some op \<and> s_txn s' = None"
    using run pc txn by (auto simp: sess_run_def t_commit_def view_of_def apply_wbuf_def buf_ops_def)
  from inv pc obtain k where k: "operation_key cfg (s_id s) = KeyOf k" "buf_ops s k \<noteq> None"
    by (auto simp: vis_defs at_credit_def)
  then obtain x where x: "buf_ops s k = Some x" by blast
  with inv have conf: "op_status x = Confirmed" by (simp add: vis_defs)
  from eff x have "operations c' k = Some x" by simp
  with eff k conf have "vis_inv cfg c' s'" by (auto simp: vis_defs in_txn_def at_credit_def buf_ops_def)
  moreover from inv pc have "s_credit s = None" by (simp add: vis_defs in_txn_def)
  ultimately show ?thesis using eff by simp
qed

lemma vis_reread:
  assumes pc: "s_pc s = CReread" and inv: "vis_inv cfg c s" and run: "sess_step cfg lo lr c s = Some (c', s')"
  shows "vis_inv cfg c' s' \<and> (s_credit s \<noteq> None \<longrightarrow> s_credit s' = s_credit s) \<and>
    (operations c' = operations c \<or> (s_credit s' \<noteq> None \<and> operations c' = operations c ++ buf_ops s))"
  using assms
  by (auto simp: vis_defs in_txn_def buf_ops_def at_credit_def sess_defs view_of_def apply_wbuf_def empty_wbuf_def
      put_op_def put_bal_def split: option.splits if_splits key_param.splits sum.splits prod.splits)

lemma vis_rollback:
  assumes pc: "s_pc s = CRollback r" and inv: "vis_inv cfg c s" and run: "sess_step cfg lo lr c s = Some (c', s')"
  shows "vis_inv cfg c' s' \<and> (s_credit s \<noteq> None \<longrightarrow> s_credit s' = s_credit s) \<and>
    (operations c' = operations c \<or> (s_credit s' \<noteq> None \<and> operations c' = operations c ++ buf_ops s))"
  using assms
  by (auto simp: vis_defs in_txn_def buf_ops_def at_credit_def sess_defs view_of_def apply_wbuf_def empty_wbuf_def
      put_op_def put_bal_def split: option.splits if_splits key_param.splits sum.splits prod.splits)

lemma vis_catch:
  assumes pc: "s_pc s = CCatch" and inv: "vis_inv cfg c s" and run: "sess_step cfg lo lr c s = Some (c', s')"
  shows "vis_inv cfg c' s' \<and> (s_credit s \<noteq> None \<longrightarrow> s_credit s' = s_credit s) \<and>
    (operations c' = operations c \<or> (s_credit s' \<noteq> None \<and> operations c' = operations c ++ buf_ops s))"
  using assms
  by (auto simp: vis_defs in_txn_def buf_ops_def at_credit_def sess_defs view_of_def apply_wbuf_def empty_wbuf_def
      put_op_def put_bal_def split: option.splits if_splits key_param.splits sum.splits prod.splits)

lemma vis_done:
  assumes pc: "s_pc s = CDone r" and inv: "vis_inv cfg c s" and run: "sess_step cfg lo lr c s = Some (c', s')"
  shows "vis_inv cfg c' s' \<and> (s_credit s \<noteq> None \<longrightarrow> s_credit s' = s_credit s) \<and>
    (operations c' = operations c \<or> (s_credit s' \<noteq> None \<and> operations c' = operations c ++ buf_ops s))"
  using assms
  by (auto simp: vis_defs in_txn_def buf_ops_def at_credit_def sess_defs view_of_def apply_wbuf_def empty_wbuf_def
      put_op_def put_bal_def split: option.splits if_splits key_param.splits sum.splits prod.splits)

lemma vis_sess_step:
  assumes inv: "vis_inv cfg c s" and run: "sess_step cfg lo lr c s = Some (c', s')"
  shows "vis_inv cfg c' s' \<and> (s_credit s \<noteq> None \<longrightarrow> s_credit s' = s_credit s) \<and>
    (operations c' = operations c \<or> (s_credit s' \<noteq> None \<and> operations c' = operations c ++ buf_ops s))"
proof (cases "s_pc s")
  case CBegin from vis_begin [OF this inv run] show ?thesis .
next
  case CFind from vis_find [OF this inv run] show ?thesis .
next
  case (CSetStatus op) from vis_set_status [OF this inv run] show ?thesis .
next
  case (CAddBalance op) from vis_add_balance [OF this inv run] show ?thesis .
next
  case (CCommit op) from vis_commit [OF this inv run] show ?thesis .
next
  case CReread from vis_reread [OF this inv run] show ?thesis .
next
  case (CRollback r) from vis_rollback [OF this inv run] show ?thesis .
next
  case CCatch from vis_catch [OF this inv run] show ?thesis .
next
  case (CDone r) from vis_done [OF this inv run] show ?thesis .
qed

lemma vis_ledger_grow:
  assumes "vis_ledger cfg c s" "operations c' = operations c ++ b" "\<And>k x. b k = Some x \<Longrightarrow> op_status x = Confirmed"
  shows "vis_ledger cfg c' s"
proof -
  have dom: "operations c k \<noteq> None \<Longrightarrow> operations c' k \<noteq> None" for k
    using assms(2) by (simp add: map_add_def split: option.splits)
  have conf: "\<exists>op'. operations c' k = Some op' \<and> op_status op' = Confirmed"
    if "operations c k = Some op" "op_status op = Confirmed" for k op
    using assms(2,3) that by (cases "b k") simp_all
  show ?thesis
    unfolding vis_ledger_def
  proof (intro conjI allI impI)
    fix op assume "s_pc s = CSetStatus op"
    with assms(1) obtain k where "operation_key cfg (s_id s) = KeyOf k" "operations c k \<noteq> None"
      by (auto simp: vis_ledger_def)
    with dom show "\<exists>k. operation_key cfg (s_id s) = KeyOf k \<and> operations c' k \<noteq> None" by blast
  next
    assume "s_credit s \<noteq> None"
    with assms(1) obtain k op where "operation_key cfg (s_id s) = KeyOf k" "operations c k = Some op"
      "op_status op = Confirmed" by (auto simp: vis_ledger_def)
    with conf show "\<exists>k op. operation_key cfg (s_id s) = KeyOf k \<and> operations c' k = Some op \<and> op_status op = Confirmed"
      by blast
  qed
qed

lemma vis_inv_grow:
  "vis_inv cfg c s \<Longrightarrow> operations c' = operations c ++ b \<Longrightarrow> (\<And>k x. b k = Some x \<Longrightarrow> op_status x = Confirmed) \<Longrightarrow>
   vis_inv cfg c' s"
  unfolding vis_inv_def using vis_ledger_grow by blast

lemma vis_buf_confirmed: "vis_inv cfg c s \<Longrightarrow> buf_ops s k = Some x \<Longrightarrow> op_status x = Confirmed"
  by (simp add: vis_defs)

lemma vis_buf_key: "vis_inv cfg c s \<Longrightarrow> buf_ops s k = Some x \<Longrightarrow> operation_key cfg (s_id s) = KeyOf k"
  by (simp add: vis_defs)

lemma vis_state_start: "vis_state cfg c0 (start c0 ts)"
  by (auto simp: vis_state_def start_def new_session_def vis_defs in_txn_def at_credit_def buf_ops_def)

lemma vis_state_step:
  assumes inv: "vis_state cfg c0 st" and step: "conf_step cfg i st = Some st'"
  shows "vis_state cfg c0 st'"
proof -
  let ?c = "cs_ledger st" and ?ss = "cs_sessions st"
  from step obtain c' s' lo lr where i: "i < length ?ss" and run: "sess_step cfg lo lr ?c (?ss ! i) = Some (c', s')"
    and st': "st' = \<lparr>cs_ledger = c', cs_sessions = ?ss[i := s']\<rparr>"
    by (rule conf_step_Some)
  from inv i have vi: "vis_inv cfg ?c (?ss ! i)" by (simp add: vis_state_def)
  from vis_sess_step [OF vi run] have vi': "vis_inv cfg c' s'"
    and mono: "s_credit (?ss ! i) \<noteq> None \<longrightarrow> s_credit s' = s_credit (?ss ! i)"
    and ops: "operations c' = operations ?c \<or>
      (s_credit s' \<noteq> None \<and> operations c' = operations ?c ++ buf_ops (?ss ! i))" by blast+
  have id: "s_id s' = s_id (?ss ! i)" by (rule sess_step_id [OF run])
  have grow: "operations c' = operations ?c ++ (if operations c' = operations ?c then Map.empty else buf_ops (?ss ! i))"
    using ops by auto
  have bconf: "op_status x = Confirmed"
    if "(if operations c' = operations ?c then Map.empty else buf_ops (?ss ! i)) k = Some x" for k x
    using that vis_buf_confirmed [OF vi] by (simp split: if_splits)
  have sess: "\<forall>j<length ?ss. vis_inv cfg c' ((?ss[i := s']) ! j)"
  proof (intro allI impI)
    fix j assume j: "j < length ?ss"
    show "vis_inv cfg c' ((?ss[i := s']) ! j)"
    proof (cases "j = i")
      case True with vi' j show ?thesis by simp
    next
      case False
      from inv j have "vis_inv cfg ?c (?ss ! j)" by (simp add: vis_state_def)
      from vis_inv_grow [OF this grow bconf] False show ?thesis by simp
    qed
  qed
  have keep: "\<exists>j'<length ?ss. s_credit ((?ss[i := s']) ! j') \<noteq> None \<and>
      operation_key cfg (s_id ((?ss[i := s']) ! j')) = KeyOf k"
    if "\<exists>j<length ?ss. s_credit (?ss ! j) \<noteq> None \<and> operation_key cfg (s_id (?ss ! j)) = KeyOf k" for k
  proof -
    from that obtain j where j: "j < length ?ss" "s_credit (?ss ! j) \<noteq> None"
      "operation_key cfg (s_id (?ss ! j)) = KeyOf k" by blast
    with mono id show ?thesis by (cases "j = i") (auto intro!: exI [of _ j])
  qed
  have glob: "confirmed_at c' k \<longrightarrow> confirmed_at c0 k \<or>
      (\<exists>j<length ?ss. s_credit ((?ss[i := s']) ! j) \<noteq> None \<and> operation_key cfg (s_id ((?ss[i := s']) ! j)) = KeyOf k)"
    for k
  proof (intro impI)
    assume ck: "confirmed_at c' k"
    show "confirmed_at c0 k \<or>
      (\<exists>j<length ?ss. s_credit ((?ss[i := s']) ! j) \<noteq> None \<and> operation_key cfg (s_id ((?ss[i := s']) ! j)) = KeyOf k)"
    proof (cases "operations c' k = operations ?c k")
      case True
      with ck have "confirmed_at ?c k" by (simp add: confirmed_at_def)
      with inv have "confirmed_at c0 k \<or>
          (\<exists>j<length ?ss. s_credit (?ss ! j) \<noteq> None \<and> operation_key cfg (s_id (?ss ! j)) = KeyOf k)"
        by (simp add: vis_state_def)
      with keep show ?thesis by blast
    next
      case False
      with ops obtain x where "s_credit s' \<noteq> None" "buf_ops (?ss ! i) k = Some x"
        by (auto simp: map_add_def split: option.splits)
      with vis_buf_key [OF vi] id i show ?thesis by (auto intro!: exI [of _ i])
    qed
  qed
  from sess glob st' show ?thesis by (simp add: vis_state_def)
qed

lemma conc_reach_vis: "conc_reach cfg c0 ts st \<Longrightarrow> vis_state cfg c0 st"
  by (induction rule: conc_reach.induct) (auto intro: vis_state_start vis_state_step)

text \<open>C11: Under every interleaving of concurrent confirmations, an operation confirmed in the committed tables was confirmed at the start or has a committed confirmation by a request naming it: no status change is visible without its credit.\<close>

theorem conc_confirmed_credited:
  assumes "conc_reach cfg c0 ts st" "operations (cs_ledger st) k = Some op" "op_status op = Confirmed"
  shows "(\<exists>op0. operations c0 k = Some op0 \<and> op_status op0 = Confirmed) \<or>
    (\<exists>j<length (cs_sessions st). s_credit (cs_sessions st ! j) \<noteq> None \<and>
       operation_key cfg (s_id (cs_sessions st ! j)) = KeyOf k)"
  using conc_reach_vis [OF assms(1)] assms(2,3) by (auto simp: vis_state_def confirmed_at_def)

text \<open>C12: Under every interleaving of concurrent confirmations, a request that committed its confirmation names an operation that is confirmed in the committed tables: no credit is visible without its status change.\<close>

theorem conc_credit_confirmed:
  assumes "conc_reach cfg c0 ts st" "j < length (cs_sessions st)" "s_credit (cs_sessions st ! j) \<noteq> None"
  shows "\<exists>k op. operation_key cfg (s_id (cs_sessions st ! j)) = KeyOf k \<and>
    operations (cs_ledger st) k = Some op \<and> op_status op = Confirmed"
proof -
  from conc_reach_vis [OF assms(1)] assms(2) have "vis_ledger cfg (cs_ledger st) (cs_sessions st ! j)"
    by (simp add: vis_state_def vis_inv_def)
  with assms(3) show ?thesis by (simp add: vis_ledger_def)
qed

section \<open>What an answered request has seen\<close>

lemma fin_begin:
  assumes pc: "s_pc s = CBegin" and fin: "fin_inv cfg c0 c s" and vis: "vis_inv cfg c s"
    and dom: "\<And>k. operations c0 k \<noteq> None \<Longrightarrow> operations c k \<noteq> None"
    and run: "sess_step cfg lo lr c s = Some (c', s')"
  shows "fin_inv cfg c0 c' s'"
  using assms
  by (auto simp: fin_inv_def vis_defs in_txn_def at_credit_def buf_ops_def confirmed_at_def sess_defs
      split: option.splits if_splits key_param.splits sum.splits prod.splits)

lemma fin_find:
  assumes pc: "s_pc s = CFind" and vis: "vis_inv cfg c s"
    and dom: "\<And>k. operations c0 k \<noteq> None \<Longrightarrow> operations c k \<noteq> None"
    and run: "sess_step cfg lo lr c s = Some (c', s')"
  shows "fin_inv cfg c0 c' s'"
proof -
  from vis pc obtain wb where txn: "s_txn s = Some wb" and e: "\<forall>k. wb_ops wb k = None"
    by (auto simp: vis_defs in_txn_def at_credit_def buf_ops_def)
  then have empty: "wb_ops wb = Map.empty" by (simp add: fun_eq_iff)
  have "confirmed_at c' k"
    if key: "operation_key cfg (s_id s') = KeyOf k" and ex: "operations c0 k \<noteq> None"
      and r: "s_pc s' = CRollback r" for k r
  proof -
    from dom [OF ex] obtain op where op: "operations c k = Some op" by blast
    from run pc have id: "s_id s' = s_id s" by (auto simp: sess_defs split: prod.splits sum.splits)
    from run pc txn empty key id op r show ?thesis
      by (auto simp: sess_defs view_of_def apply_wbuf_def confirmed_at_def after_find_def
          split: if_splits key_param.splits)
  qed
  moreover have "(s_pc s' = CCatch \<longrightarrow> (\<forall>k. operation_key cfg (s_id s') \<noteq> KeyOf k)) \<and>
      (\<forall>r. s_pc s' \<noteq> CDone r) \<and> s_pc s' \<noteq> CReread"
    using run pc by (auto simp: sess_defs split: prod.splits sum.splits option.splits if_splits key_param.splits)
  ultimately show ?thesis by (auto simp: fin_inv_def split: cpc.splits)
qed

lemma fin_set_status:
  assumes pc: "s_pc s = CSetStatus op" and fin: "fin_inv cfg c0 c s" and vis: "vis_inv cfg c s"
    and dom: "\<And>k. operations c0 k \<noteq> None \<Longrightarrow> operations c k \<noteq> None"
    and run: "sess_step cfg lo lr c s = Some (c', s')"
  shows "fin_inv cfg c0 c' s'"
  using assms
  by (auto simp: fin_inv_def vis_defs in_txn_def at_credit_def buf_ops_def confirmed_at_def sess_defs
      split: option.splits if_splits key_param.splits sum.splits prod.splits)

lemma fin_add_balance:
  assumes pc: "s_pc s = CAddBalance op" and run: "sess_step cfg lo lr c s = Some (c', s')"
  shows "fin_inv cfg c0 c' s'"
proof -
  from run pc have "s_pc s' = CCommit op"
    by (auto simp: sess_run_def t_add_balance_def put_bal_def split: if_splits prod.splits sum.splits option.splits)
  then show ?thesis by (simp add: fin_inv_def)
qed

lemma fin_commit:
  assumes pc: "s_pc s = CCommit op" and run: "sess_step cfg lo lr c s = Some (c', s')"
  shows "fin_inv cfg c0 c' s'"
proof -
  from run pc have "s_pc s' = CReread \<and> s_credit s' = Some op"
    by (auto simp: sess_run_def t_commit_def split: prod.splits)
  then show ?thesis by (simp add: fin_inv_def)
qed

lemma fin_reread:
  assumes pc: "s_pc s = CReread" and fin: "fin_inv cfg c0 c s" and vis: "vis_inv cfg c s"
    and dom: "\<And>k. operations c0 k \<noteq> None \<Longrightarrow> operations c k \<noteq> None"
    and run: "sess_step cfg lo lr c s = Some (c', s')"
  shows "fin_inv cfg c0 c' s'"
  using assms
  by (auto simp: fin_inv_def vis_defs in_txn_def at_credit_def buf_ops_def confirmed_at_def sess_defs
      split: option.splits if_splits key_param.splits sum.splits prod.splits)

lemma fin_rollback:
  assumes pc: "s_pc s = CRollback r" and fin: "fin_inv cfg c0 c s" and vis: "vis_inv cfg c s"
    and dom: "\<And>k. operations c0 k \<noteq> None \<Longrightarrow> operations c k \<noteq> None"
    and run: "sess_step cfg lo lr c s = Some (c', s')"
  shows "fin_inv cfg c0 c' s'"
  using assms
  by (auto simp: fin_inv_def vis_defs in_txn_def at_credit_def buf_ops_def confirmed_at_def sess_defs
      split: option.splits if_splits key_param.splits sum.splits prod.splits)

lemma fin_catch:
  assumes pc: "s_pc s = CCatch" and fin: "fin_inv cfg c0 c s" and vis: "vis_inv cfg c s"
    and dom: "\<And>k. operations c0 k \<noteq> None \<Longrightarrow> operations c k \<noteq> None"
    and run: "sess_step cfg lo lr c s = Some (c', s')"
  shows "fin_inv cfg c0 c' s'"
  using assms
  by (auto simp: fin_inv_def vis_defs in_txn_def at_credit_def buf_ops_def confirmed_at_def sess_defs
      split: option.splits if_splits key_param.splits sum.splits prod.splits)

lemma fin_done:
  assumes pc: "s_pc s = CDone r" and fin: "fin_inv cfg c0 c s" and vis: "vis_inv cfg c s"
    and dom: "\<And>k. operations c0 k \<noteq> None \<Longrightarrow> operations c k \<noteq> None"
    and run: "sess_step cfg lo lr c s = Some (c', s')"
  shows "fin_inv cfg c0 c' s'"
  using assms
  by (auto simp: fin_inv_def vis_defs in_txn_def at_credit_def buf_ops_def confirmed_at_def sess_defs
      split: option.splits if_splits key_param.splits sum.splits prod.splits)

lemma fin_sess_step:
  assumes fin: "fin_inv cfg c0 c s" and vis: "vis_inv cfg c s"
    and dom: "\<And>k. operations c0 k \<noteq> None \<Longrightarrow> operations c k \<noteq> None"
    and run: "sess_step cfg lo lr c s = Some (c', s')"
  shows "fin_inv cfg c0 c' s'"
proof (cases "s_pc s")
  case CBegin from fin_begin [OF this fin vis dom run] show ?thesis .
next
  case CFind from fin_find [OF this vis dom run] show ?thesis .
next
  case (CSetStatus op) from fin_set_status [OF this fin vis dom run] show ?thesis .
next
  case (CAddBalance op) from fin_add_balance [OF this run] show ?thesis .
next
  case (CCommit op) from fin_commit [OF this run] show ?thesis .
next
  case CReread from fin_reread [OF this fin vis dom run] show ?thesis .
next
  case (CRollback r) from fin_rollback [OF this fin vis dom run] show ?thesis .
next
  case CCatch from fin_catch [OF this fin vis dom run] show ?thesis .
next
  case (CDone r) from fin_done [OF this fin vis dom run] show ?thesis .
qed

lemma confirmed_at_grow:
  "confirmed_at c k \<Longrightarrow> operations c' = operations c ++ b \<Longrightarrow> (\<And>k x. b k = Some x \<Longrightarrow> op_status x = Confirmed) \<Longrightarrow>
   confirmed_at c' k"
  by (cases "b k") (auto simp: confirmed_at_def)

lemma fin_inv_grow:
  assumes "fin_inv cfg c0 c s" "operations c' = operations c ++ b" "\<And>k x. b k = Some x \<Longrightarrow> op_status x = Confirmed"
  shows "fin_inv cfg c0 c' s"
  using assms(1) confirmed_at_grow [OF _ assms(2,3)] by (auto simp: fin_inv_def split: cpc.splits)

lemma step_grows:
  assumes "vis_inv cfg c s" "sess_step cfg lo lr c s = Some (c', s')"
  obtains b where "operations c' = operations c ++ b" "\<And>k x. b k = Some x \<Longrightarrow> op_status x = Confirmed"
proof -
  from vis_sess_step [OF assms] have
    "operations c' = operations c \<or> operations c' = operations c ++ buf_ops s" by blast
  then show ?thesis
  proof
    assume "operations c' = operations c"
    then have "operations c' = operations c ++ Map.empty" by simp
    then show ?thesis by (rule that) simp
  next
    assume "operations c' = operations c ++ buf_ops s"
    then show ?thesis by (rule that) (rule vis_buf_confirmed [OF assms(1)])
  qed
qed

lemma fin_state_start: "fin_state cfg c0 (start c0 ts)"
  by (auto simp: fin_state_def start_def new_session_def fin_inv_def)

lemma fin_state_step:
  assumes fin: "fin_state cfg c0 st" and vis: "vis_state cfg c0 st" and step: "conf_step cfg i st = Some st'"
  shows "fin_state cfg c0 st'"
proof -
  let ?c = "cs_ledger st" and ?ss = "cs_sessions st"
  from step obtain c' s' lo lr where i: "i < length ?ss" and run: "sess_step cfg lo lr ?c (?ss ! i) = Some (c', s')"
    and st': "st' = \<lparr>cs_ledger = c', cs_sessions = ?ss[i := s']\<rparr>"
    by (rule conf_step_Some)
  from vis i have vi: "vis_inv cfg ?c (?ss ! i)" by (simp add: vis_state_def)
  obtain b where grow: "operations c' = operations ?c ++ b" and bconf: "\<And>k x. b k = Some x \<Longrightarrow> op_status x = Confirmed"
    using step_grows [OF vi run] by blast
  have dom: "\<And>k. operations c0 k \<noteq> None \<Longrightarrow> operations ?c k \<noteq> None" using fin by (simp add: fin_state_def)
  from fin i have "fin_inv cfg c0 ?c (?ss ! i)" by (simp add: fin_state_def)
  from fin_sess_step [OF this vi dom run] have fi: "fin_inv cfg c0 c' s'" .
  have others: "\<forall>j<length ?ss. fin_inv cfg c0 c' ((?ss[i := s']) ! j)"
  proof (intro allI impI)
    fix j assume j: "j < length ?ss"
    show "fin_inv cfg c0 c' ((?ss[i := s']) ! j)"
    proof (cases "j = i")
      case True with fi j show ?thesis by simp
    next
      case False
      from fin j have "fin_inv cfg c0 ?c (?ss ! j)" by (simp add: fin_state_def)
      from fin_inv_grow [OF this grow bconf] False show ?thesis by simp
    qed
  qed
  have "operations c0 k \<noteq> None \<Longrightarrow> operations c' k \<noteq> None" for k
    using dom [of k] grow by (simp add: map_add_def split: option.splits)
  with others st' show ?thesis by (simp add: fin_state_def)
qed

lemma conc_reach_fin: "conc_reach cfg c0 ts st \<Longrightarrow> fin_state cfg c0 st"
proof (induction rule: conc_reach.induct)
  case init
  show ?case by (rule fin_state_start)
next
  case (step st i st')
  from fin_state_step [OF step.IH conc_reach_vis [OF step.hyps(1)] step.hyps(2)] show ?case .
qed

text \<open>C13: When all concurrent confirm requests have answered and one of them named an existing pending operation, at least one of them credited that operation.\<close>

theorem conc_pending_credited:
  assumes reach: "conc_reach cfg c0 ts st" and fin: "list_all (\<lambda>s. is_done (s_pc s)) (cs_sessions st)"
    and op0: "operations c0 k = Some op0" "op_status op0 = Pending"
    and j: "j < length (cs_sessions st)" "operation_key cfg (s_id (cs_sessions st ! j)) = KeyOf k"
  shows "\<exists>j'<length (cs_sessions st). s_credit (cs_sessions st ! j') \<noteq> None \<and>
    operation_key cfg (s_id (cs_sessions st ! j')) = KeyOf k"
proof -
  from fin j(1) obtain r where pc: "s_pc (cs_sessions st ! j) = CDone r"
    by (cases "s_pc (cs_sessions st ! j)") (auto simp: list_all_length)
  from conc_reach_fin [OF reach] j(1) have "fin_inv cfg c0 (cs_ledger st) (cs_sessions st ! j)"
    by (simp add: fin_state_def)
  with pc j(2) op0(1) have "s_credit (cs_sessions st ! j) \<noteq> None \<or> confirmed_at (cs_ledger st) k"
    by (simp add: fin_inv_def)
  then show ?thesis
  proof
    assume "s_credit (cs_sessions st ! j) \<noteq> None"
    with j show ?thesis by blast
  next
    assume "confirmed_at (cs_ledger st) k"
    with conc_reach_vis [OF reach] have "confirmed_at c0 k \<or>
        (\<exists>j<length (cs_sessions st). s_credit (cs_sessions st ! j) \<noteq> None \<and>
          operation_key cfg (s_id (cs_sessions st ! j)) = KeyOf k)"
      by (simp add: vis_state_def)
    with op0 show ?thesis by (auto simp: confirmed_at_def)
  qed
qed

section \<open>Runs on the demo ledger\<close>

lemma demo_serial_facts:
  "\<exists>st. run_sched pg_cfg [0, 0, 0, 0, 0, 0, 1, 1, 1] (start demo_pending [''1'', ''1'']) = Some st \<and>
     cs_ledger st = demo_confirmed \<and> length (cs_sessions st) = 2 \<and>
     list_all (\<lambda>s. is_done (s_pc s)) (cs_sessions st) \<and>
     s_credit (cs_sessions st ! 0) \<noteq> None \<and>
     operation_key pg_cfg (s_id (cs_sessions st ! 0)) = KeyOf 1 \<and>
     operation_key pg_cfg (s_id (cs_sessions st ! 1)) = KeyOf 1"
  by (simp add: sched_defs demo_defs confirm_effect_def)

theorem conc_confirmed_credited_witness:
  "\<exists>st. run_sched pg_cfg [0, 0, 0, 0, 0, 0, 1, 1, 1] (start demo_pending [''1'', ''1'']) = Some st \<and>
     ((\<exists>op0. operations demo_pending 1 = Some op0 \<and> op_status op0 = Confirmed) \<or>
      (\<exists>j<length (cs_sessions st). s_credit (cs_sessions st ! j) \<noteq> None \<and>
         operation_key pg_cfg (s_id (cs_sessions st ! j)) = KeyOf 1))"
proof -
  from demo_serial_facts obtain st where run: "run_sched pg_cfg [0, 0, 0, 0, 0, 0, 1, 1, 1] (start demo_pending [''1'', ''1'']) = Some st"
    and led: "cs_ledger st = demo_confirmed" by blast
  have reach: "conc_reach pg_cfg demo_pending [''1'', ''1''] st" by (rule run_sched_reach [OF run conc_reach.init])
  have "operations (cs_ledger st) 1 = Some ((new_operation 1 1 100 3 97 0)\<lparr>op_status := Confirmed\<rparr>)"
    by (simp add: led demo_defs confirm_effect_def)
  from conc_confirmed_credited [OF reach this] run show ?thesis by simp
qed

theorem conc_credit_confirmed_witness:
  "\<exists>st. run_sched pg_cfg [0, 0, 0, 0, 0, 0, 1, 1, 1] (start demo_pending [''1'', ''1'']) = Some st \<and>
     (\<exists>k op. operation_key pg_cfg (s_id (cs_sessions st ! 0)) = KeyOf k \<and>
        operations (cs_ledger st) k = Some op \<and> op_status op = Confirmed)"
proof -
  from demo_serial_facts obtain st where run: "run_sched pg_cfg [0, 0, 0, 0, 0, 0, 1, 1, 1] (start demo_pending [''1'', ''1'']) = Some st"
    and len: "length (cs_sessions st) = 2" and cr: "s_credit (cs_sessions st ! 0) \<noteq> None" by blast
  have reach: "conc_reach pg_cfg demo_pending [''1'', ''1''] st" by (rule run_sched_reach [OF run conc_reach.init])
  from conc_credit_confirmed [OF reach _ cr] len run show ?thesis by simp
qed

theorem conc_pending_credited_witness:
  "\<exists>st. run_sched pg_cfg [0, 0, 0, 0, 0, 0, 1, 1, 1] (start demo_pending [''1'', ''1'']) = Some st \<and>
     (\<exists>j'<length (cs_sessions st). s_credit (cs_sessions st ! j') \<noteq> None \<and>
        operation_key pg_cfg (s_id (cs_sessions st ! j')) = KeyOf 1)"
proof -
  from demo_serial_facts obtain st where run: "run_sched pg_cfg [0, 0, 0, 0, 0, 0, 1, 1, 1] (start demo_pending [''1'', ''1'']) = Some st"
    and len: "length (cs_sessions st) = 2" and fin: "list_all (\<lambda>s. is_done (s_pc s)) (cs_sessions st)"
    and key: "operation_key pg_cfg (s_id (cs_sessions st ! 1)) = KeyOf 1" by blast
  have reach: "conc_reach pg_cfg demo_pending [''1'', ''1''] st" by (rule run_sched_reach [OF run conc_reach.init])
  have op0: "operations demo_pending 1 = Some (new_operation 1 1 100 3 97 0)" "op_status (new_operation 1 1 100 3 97 0) = Pending"
    by (simp_all add: demo_defs)
  from conc_pending_credited [OF reach fin op0 _ key] len run show ?thesis by simp
qed

end
