(* ===== verification/JS_Rounding.thy ===== *)
theory JS_Rounding
  imports JS_Number
begin

text \<open>
  The accuracy of the binary64 model of \<open>JS_Number\<close>: \<open>canon\<close> keeps the value, one
  rounding step (\<open>round_dyadic\<close>) is off by at most half a unit in the last place, that
  is by at most \<open>|x| / 2^53\<close> in the normal range and \<open>2^-1075\<close> below it, and so are a
  product (\<open>js_mul\<close>) and a difference (\<open>js_sub\<close>) of finite numbers, since both round
  the exact result once; every such result is a binary64 value (\<open>is_double\<close>); and
  \<open>parseFloat\<close> of a fraction depends only on its value and gives a double back from
  its exact value.
  \<open>pow2\<close> is the integer power \<open>2 powi e\<close> of the library.
\<close>

lemma pow2_powi: "pow2 e = 2 powi e"
proof (cases "0 \<le> e")
  case True
  then have "e = int (nat e)" by simp
  then have "(2::rat) powi e = 2 ^ nat e" by (metis power_int_of_nat)
  moreover from True have "pow2 e = 2 ^ nat e" by (simp add: pow2_def)
  ultimately show ?thesis by metis
next
  case False
  then have e: "e = - int (nat (- e))" by simp
  have "(2::rat) powi e = inverse (2 powi int (nat (- e)))"
    by (subst e) (rule power_int_minus)
  also have "\<dots> = 1 / 2 ^ nat (- e)" by (simp only: power_int_of_nat inverse_eq_divide)
  moreover from False have "pow2 e = 1 / 2 ^ nat (- e)" by (simp add: pow2_def)
  ultimately show ?thesis by metis
qed

lemma pow2_add: "pow2 (a + b) = pow2 a * pow2 b"
  by (simp add: pow2_powi power_int_add)

lemma pow2_pos [simp]: "0 < pow2 e"
  by (simp add: pow2_def)

lemma pow2_nonneg [simp]: "0 \<le> pow2 e"
  using pow2_pos [of e] by linarith

lemma pow2_nat: "0 \<le> e \<Longrightarrow> pow2 e = of_int (2 ^ nat e)"
  by (simp add: pow2_def)

lemma canon_value: "js_value (canon m e) = fin_val m e"
proof (induction m e rule: canon.induct)
  case (1 m e)
  show ?case
  proof (cases "m = 0 \<or> odd m")
    case True
    then show ?thesis by (auto simp: fin_val_def)
  next
    case False
    then have m: "m = 2 * (m div 2)" "m \<noteq> 0" "even m" by auto
    from False have "js_value (canon m e) = fin_val (m div 2) (e + 1)"
      using "1.IH" by simp
    also have "\<dots> = fin_val m e"
    proof -
      have "pow2 1 = 2" by (simp add: pow2_def)
      then have "pow2 (e + 1) = 2 * pow2 e" by (simp add: pow2_add)
      moreover obtain k where "m = 2 * k" using m(3) by blast
      then have "(of_int m :: rat) = 2 * of_int (m div 2)" by simp
      ultimately show ?thesis by (simp add: fin_val_def)
    qed
    finally show ?thesis .
  qed
qed

lemma round_even_err: "0 < q \<Longrightarrow> 2 * \<bar>round_even p q * q - p\<bar> \<le> q"
proof -
  assume q: "0 < q"
  define d r where "d = p div q" and "r = p mod q"
  have p: "p = q * d + r" and r: "0 \<le> r" "r < q" using q by (simp_all add: d_def r_def)
  have "round_even p q = d \<or> round_even p q = d + 1" by (simp add: round_even_def d_def)
  moreover have "round_even p q = d \<Longrightarrow> 2 * r \<le> q"
    using q r by (auto simp: round_even_def d_def r_def split: if_splits)
  moreover have "round_even p q = d + 1 \<Longrightarrow> q \<le> 2 * r"
    using q r by (auto simp: round_even_def d_def r_def split: if_splits)
  ultimately show ?thesis using p r by (auto simp: algebra_simps abs_if)
qed

lemma finish_value: "finish sg n e = Fin m' e' \<Longrightarrow> fin_val m' e' = fin_val (sg * n) e"
  using canon_value [of "sg * n" e] by (auto simp: finish_def split: if_splits)

lemma round_even_0 [simp]: "0 < q \<Longrightarrow> round_even 0 q = 0"
  by (simp add: round_even_def)

text \<open>The error of one rounding: half a unit in the last place, relative to the exact value
  in the normal range, and at most \<open>2^-1075\<close> in the subnormal range.\<close>

lemma round_half_unit:
  assumes "0 < s"
  shows "\<bar>of_int (round_even a (2 ^ nat s)) * pow2 (e + s) - of_int a * pow2 e\<bar> \<le> pow2 (e + s) / 2"
proof -
  define X where "X = (of_int (round_even a (2 ^ nat s) * 2 ^ nat s - a) :: rat)"
  have q: "(0::int) < 2 ^ nat s" by simp
  have ps: "pow2 s = of_int (2 ^ nat s)" using assms by (simp add: pow2_nat)
  have eq: "of_int (round_even a (2 ^ nat s)) * pow2 (e + s) - of_int a * pow2 e = pow2 e * X"
    by (simp add: X_def pow2_add ps algebra_simps)
  have "(of_int (2 * \<bar>round_even a (2 ^ nat s) * 2 ^ nat s - a\<bar>) :: rat) \<le> of_int (2 ^ nat s)"
    using round_even_err [OF q, of a] by (simp only: of_int_le_iff)
  then have "2 * \<bar>X\<bar> \<le> pow2 s"
    by (simp only: X_def ps of_int_mult of_int_abs of_int_numeral)
  then have "pow2 e * (2 * \<bar>X\<bar>) \<le> pow2 e * pow2 s"
    by (rule mult_left_mono) simp
  then show ?thesis
    unfolding eq by (simp add: abs_mult pow2_add)
qed

lemma pow2_half: "pow2 (k - 1) = pow2 k / 2"
proof -
  have "pow2 (k - 1) = pow2 k * pow2 (- 1)" using pow2_add [of k "- 1"] by simp
  then show ?thesis by (simp add: pow2_def)
qed

lemma ulp_le_value:
  assumes "0 < a"
  shows "pow2 (int (bitlen (nat a)) + e - 53) / 2 \<le> of_int a * pow2 e / 2 ^ 53"
proof -
  define B where "B = bitlen (nat a)"
  have B: "1 \<le> B" using assms bitlen_pos [of "nat a"] by (simp add: B_def)
  have low: "(2::int) ^ (B - 1) \<le> a"
    using bitlen_lower [of "nat a"] assms by (simp add: B_def)
  have "pow2 (int B + e - 53) = pow2 (int (B - 1)) * pow2 e * pow2 (- 52)"
    using B by (simp add: pow2_add [symmetric] algebra_simps)
  also have "pow2 (int (B - 1)) = of_int (2 ^ (B - 1))" by (simp add: pow2_def)
  finally have "pow2 (int B + e - 53) / 2 = of_int (2 ^ (B - 1)) * pow2 e / 2 ^ 53"
    by (simp add: pow2_def)
  also have "\<dots> \<le> of_int a * pow2 e / 2 ^ 53"
    using low by (intro divide_right_mono mult_right_mono) simp_all
  finally show ?thesis by (simp add: B_def)
qed

lemma round_dyadic_err:
  assumes r: "round_dyadic m e = Fin m' e'"
  shows "\<bar>fin_val m' e' - fin_val m e\<bar> \<le> max (\<bar>fin_val m e\<bar> / 2 ^ 53) (pow2 (- 1075))"
proof -
  define a where "a = \<bar>m\<bar>"
  define s where "s = round_shift a e"
  have fin: "fin_val m' e' = fin_val (sgn m * round_mant a s) (e + max 0 s)"
    using finish_value [OF r [unfolded round_dyadic_def]] by (simp add: a_def s_def)
  have absx: "\<bar>fin_val m e\<bar> = of_int a * pow2 e"
    by (simp add: fin_val_def a_def abs_mult)
  show ?thesis
  proof (cases "0 < s \<and> 0 < a")
    case False
    then have "sgn m * round_mant a s = m \<and> max 0 s = 0 \<or> m = 0 \<and> round_mant a s = 0"
      by (auto simp: round_mant_def a_def sgn_mult_abs)
    then have "fin_val m' e' = fin_val m e" using fin by (auto simp: fin_val_def simp del: of_int_mult)
    then show ?thesis by simp
  next
    case True
    then have s: "0 < s" and a: "0 < a" by simp_all
    have "fin_val m' e' - fin_val m e =
        of_int (sgn m) * (of_int (round_even a (2 ^ nat s)) * pow2 (e + s) - of_int a * pow2 e)"
    proof -
      have "(of_int m :: rat) = of_int (sgn m * a)" by (simp add: a_def sgn_mult_abs)
      then have m_eq: "(of_int m :: rat) = of_int (sgn m) * of_int a" by simp
      show ?thesis using fin s m_eq by (simp add: round_mant_def fin_val_def algebra_simps)
    qed
    then have "\<bar>fin_val m' e' - fin_val m e\<bar> \<le>
        \<bar>of_int (round_even a (2 ^ nat s)) * pow2 (e + s) - of_int a * pow2 e\<bar>"
      using mult_left_le_one_le [of _ "\<bar>rat_of_int (sgn m)\<bar>"] by (simp add: abs_mult sgn_if)
    also have "\<dots> \<le> pow2 (e + s) / 2" by (rule round_half_unit [OF s])
    also have "\<dots> \<le> max (\<bar>fin_val m e\<bar> / 2 ^ 53) (pow2 (- 1075))"
    proof (cases "- 1074 \<le> int (bitlen (nat a)) + e - 53")
      case True
      then have es: "e + s = int (bitlen (nat a)) + e - 53" by (simp add: s_def round_shift_def)
      have "pow2 (e + s) / 2 \<le> \<bar>fin_val m e\<bar> / 2 ^ 53"
        unfolding es absx by (rule ulp_le_value [OF a])
      then show ?thesis by (rule order_trans) simp
    next
      case False
      then have es: "e + s = - 1074" by (simp add: s_def round_shift_def)
      have "pow2 (e + s) / 2 = pow2 (- 1075)"
        unfolding es using pow2_half [of "- 1074"] by simp
      then show ?thesis by simp
    qed
    finally show ?thesis .
  qed
qed

lemma js_mul_exact: "fin_val (m1 * m2) (e1 + e2) = fin_val m1 e1 * fin_val m2 e2"
  by (simp add: fin_val_def pow2_add)

lemma js_sub_exact:
  "fin_val (m1 * 2 ^ nat (e1 - min e1 e2) - m2 * 2 ^ nat (e2 - min e1 e2)) (min e1 e2) =
   fin_val m1 e1 - fin_val m2 e2"
proof -
  have split: "pow2 e = of_int (2 ^ nat (e - min e1 e2)) * pow2 (min e1 e2)"
    if "min e1 e2 \<le> e" for e
  proof -
    have "pow2 e = pow2 (e - min e1 e2) * pow2 (min e1 e2)" using pow2_add [of "e - min e1 e2" "min e1 e2"] by simp
    with that show ?thesis by (simp add: pow2_nat)
  qed
  show ?thesis
    using split [of e1] split [of e2] by (simp add: fin_val_def algebra_simps)
qed

lemma js_mul_err:
  "js_mul (Fin m1 e1) (Fin m2 e2) = Fin m e \<Longrightarrow>
   \<bar>fin_val m e - fin_val m1 e1 * fin_val m2 e2\<bar> \<le>
     max (\<bar>fin_val m1 e1 * fin_val m2 e2\<bar> / 2 ^ 53) (pow2 (- 1075))"
  using round_dyadic_err [of "m1 * m2" "e1 + e2" m e] by (simp add: js_mul_exact)

lemma js_sub_err:
  "js_sub (Fin m1 e1) (Fin m2 e2) = Fin m e \<Longrightarrow>
   \<bar>fin_val m e - (fin_val m1 e1 - fin_val m2 e2)\<bar> \<le>
     max (\<bar>fin_val m1 e1 - fin_val m2 e2\<bar> / 2 ^ 53) (pow2 (- 1075))"
  using round_dyadic_err [of "m1 * 2 ^ nat (e1 - min e1 e2) - m2 * 2 ^ nat (e2 - min e1 e2)" "min e1 e2" m e]
  by (simp add: js_sub_exact)

section \<open>Results are binary64 values\<close>

text \<open>
  One rounding always gives a canonical mantissa below \<open>2^53\<close>, an exponent of at least
  \<open>-1074\<close> and a magnitude below \<open>2^1024\<close>, or an infinity; so do products and differences.
\<close>

lemma canon_double:
  "\<bar>m\<bar> \<le> 2 ^ 53 \<Longrightarrow> - 1074 \<le> e \<Longrightarrow> m = 0 \<or> int (bitlen (nat \<bar>m\<bar>)) + e \<le> 1024 \<Longrightarrow>
   is_double (canon m e)"
proof (induction m e rule: canon.induct)
  case (1 m e)
  show ?case
  proof (cases "m = 0 \<or> odd m")
    case True
    moreover have "\<bar>m\<bar> \<noteq> 2 ^ 53" if "odd m"
    proof
      assume "\<bar>m\<bar> = 2 ^ 53"
      then have "even \<bar>m\<bar>" by simp
      with that show False by simp
    qed
    ultimately show ?thesis using "1.prems" by auto
  next
    case False
    then have m: "m \<noteq> 0" "even m" by auto
    have half: "\<bar>m div 2\<bar> = \<bar>m\<bar> div 2" using m(2) by (auto elim: evenE)
    have bl: "bitlen (nat \<bar>m\<bar>) = Suc (bitlen (nat \<bar>m div 2\<bar>))"
      using bitlen_pos [of "nat \<bar>m\<bar>"] m(1) half by (simp add: nat_div_distrib)
    have "is_double (canon (m div 2) (e + 1))"
    proof (rule "1.IH")
      show "m \<noteq> 0" by (rule m(1))
      show "even m" by (rule m(2))
      show "\<bar>m div 2\<bar> \<le> 2 ^ 53" using "1.prems"(1) half by simp
      show "- 1074 \<le> e + 1" using "1.prems"(2) by simp
      show "m div 2 = 0 \<or> int (bitlen (nat \<bar>m div 2\<bar>)) + (e + 1) \<le> 1024"
        using "1.prems"(3) m(1) bl by simp
    qed
    with m show ?thesis by simp
  qed
qed

lemma round_even_nonneg: "0 \<le> p \<Longrightarrow> 0 < q \<Longrightarrow> 0 \<le> round_even p q"
  using pos_imp_zdiv_nonneg_iff [of q p] by (simp add: round_even_def)

lemma round_even_le:
  assumes q: "0 < q" and p: "p < b * q"
  shows "round_even p q \<le> b"
proof -
  have "2 * (round_even p q * q - p) \<le> 2 * \<bar>round_even p q * q - p\<bar>" by (intro mult_left_mono abs_ge_self) simp
  then have "2 * (round_even p q * q - p) \<le> q" using round_even_err [OF q, of p] by (rule order_trans)
  then have "(2 * round_even p q) * q < (2 * b + 1) * q" using p by (simp add: algebra_simps)
  then have "2 * round_even p q < 2 * b + 1" using q by (simp only: mult_less_cancel_right)
  then show ?thesis by simp
qed

lemma round_dyadic_double: "is_double (round_dyadic m e)"
proof -
  define a where "a = \<bar>m\<bar>"
  define s where "s = round_shift a e"
  define n where "n = round_mant a s"
  define B where "B = int (bitlen (nat a))"
  have a0: "0 \<le> a" by (simp add: a_def)
  have aB: "a < 2 ^ nat B"
  proof -
    have "nat a < 2 ^ bitlen (nat a)" by (simp add: bitlen_less_iff)
    then show ?thesis using a0 by (simp add: B_def)
  qed
  have bounds: "0 \<le> n \<and> n \<le> 2 ^ 53 \<and> - 1074 \<le> e + max 0 s"
  proof (cases "0 < s")
    case False
    then have B: "B \<le> 53" and e: "- 1074 \<le> e" by (simp_all add: s_def round_shift_def B_def)
    from B have "(2::int) ^ nat B \<le> 2 ^ 53" by (intro power_increasing) (simp_all add: nat_le_iff)
    with aB have "a < 2 ^ 53" by linarith
    with False a0 e show ?thesis by (simp add: n_def round_mant_def)
  next
    case True
    have "B \<le> 53 + s" "- 1074 \<le> e + s" by (simp_all add: s_def round_shift_def B_def)
    then have "(2::int) ^ nat B \<le> 2 ^ (53 + nat s)" using True by (intro power_increasing) (simp_all add: nat_le_iff)
    with aB have "a < 2 ^ 53 * 2 ^ nat s" by (simp add: power_add)
    then have "round_even a (2 ^ nat s) \<le> 2 ^ 53" by (intro round_even_le) simp_all
    with True a0 \<open>- 1074 \<le> e + s\<close> show ?thesis
      by (simp add: n_def round_mant_def round_even_nonneg)
  qed
  show ?thesis
  proof (cases "n \<noteq> 0 \<and> 1024 < int (bitlen (nat n)) + (e + max 0 s)")
    case True
    then show ?thesis by (simp add: round_dyadic_def finish_def a_def s_def n_def)
  next
    case False
    have abs_sn: "\<bar>sgn m * n\<bar> = (if m = 0 then 0 else n)" using bounds by (simp add: abs_mult abs_sgn_eq)
    have "is_double (canon (sgn m * n) (e + max 0 s))"
      by (rule canon_double) (use bounds False abs_sn in auto)
    with False show ?thesis by (simp add: round_dyadic_def finish_def a_def s_def n_def)
  qed
qed

lemma is_double_neg: "is_double x \<Longrightarrow> is_double (js_neg x)"
  by (cases x) auto

lemma js_mul_double: "is_double x \<Longrightarrow> is_double y \<Longrightarrow> is_double (js_mul x y)"
  by (cases x; cases y) (simp_all add: round_dyadic_double is_double_neg)

lemma js_sub_double: "is_double x \<Longrightarrow> is_double y \<Longrightarrow> is_double (js_sub x y)"
  by (cases x; cases y) (simp_all add: round_dyadic_double is_double_neg)

section \<open>Reading a stored number back\<close>

text \<open>
  The route reads a stored amount back with \<open>parseFloat\<close> (\<open>parse_float\<close>, which rounds
  the ratio \<open>p / q\<close> in lowest terms). The rounding of a ratio depends only on its value, so
  \<open>round_ratio p q\<close> is \<open>parseFloat\<close> of any fraction \<open>p / q\<close> and \<open>dec_float n t\<close> is the
  number the decimal \<open>n \<cdot> 10 ^ t\<close> denotes. For a double the exact value is representable,
  so its rounding is exact: \<open>flog2\<close> is the binary exponent of the ratio, the scaled
  mantissa is an integer, and \<open>canon\<close> restores the canonical form.
\<close>

lemma round_even_exact: "0 < q \<Longrightarrow> round_even (q * n) q = n"
  by (simp add: round_even_def)

lemma bitlen_shift: "0 < n \<Longrightarrow> bitlen (n * 2 ^ k) = bitlen n + k"
proof (induction k)
  case 0
  then show ?case by simp
next
  case (Suc k)
  have "bitlen (n * 2 ^ Suc k) = Suc (bitlen (n * 2 ^ Suc k div 2))"
    using Suc.prems by (intro bitlen_pos) simp
  also have "n * 2 ^ Suc k div 2 = n * 2 ^ k" by simp
  finally show ?case using Suc by simp
qed

lemma canon_shift: "m \<noteq> 0 \<Longrightarrow> canon (m * 2 ^ k) e = canon m (e + int k)"
proof (induction k arbitrary: e)
  case 0
  then show ?case by simp
next
  case (Suc k)
  have "canon (m * 2 ^ Suc k) e = canon (m * 2 ^ k) (e + 1)"
    using Suc.prems by (subst canon_even) simp_all
  also have "\<dots> = canon m (e + int (Suc k))" using Suc.IH [OF Suc.prems] by (simp add: algebra_simps)
  finally show ?case .
qed

lemma pow2_mono: "a \<le> b \<Longrightarrow> pow2 a \<le> pow2 b"
  by (simp add: pow2_powi power_int_increasing)

lemma pow2_strict_mono: "a < b \<Longrightarrow> pow2 a < pow2 b"
  by (simp add: pow2_powi power_int_strict_increasing)

lemma ge_pow2_iff:
  assumes q: "0 < q"
  shows "ge_pow2 p q k \<longleftrightarrow> pow2 k \<le> of_int p / of_int q"
proof (cases "0 \<le> k")
  case True
  have "pow2 k \<le> of_int p / of_int q \<longleftrightarrow> of_int (q * 2 ^ nat k) \<le> (of_int p :: rat)"
    using q True by (simp add: pow2_def pos_le_divide_eq algebra_simps)
  also have "\<dots> \<longleftrightarrow> q * 2 ^ nat k \<le> p" by (rule of_int_le_iff)
  finally show ?thesis using True by (simp add: ge_pow2_def)
next
  case False
  have "pow2 k \<le> of_int p / of_int q \<longleftrightarrow> of_int q \<le> (of_int (p * 2 ^ nat (- k)) :: rat)"
    using q False by (simp add: pow2_def pos_le_divide_eq divide_le_eq algebra_simps)
  also have "\<dots> \<longleftrightarrow> q \<le> p * 2 ^ nat (- k)" by (rule of_int_le_iff)
  finally show ?thesis using False by (simp add: ge_pow2_def)
qed

lemma pow2_nonzero [simp]: "pow2 e \<noteq> 0"
  using pow2_pos [of e] by linarith

lemma pow2_not_neg [simp]: "\<not> pow2 e < 0"
  using pow2_pos [of e] by linarith

lemma pow2_diff: "pow2 a / pow2 b = pow2 (a - b)"
  using pow2_add [of "a - b" b] by simp

lemma pow2_bitlen:
  assumes "0 < n"
  shows "pow2 (int (bitlen (nat n)) - 1) \<le> of_int n \<and> of_int n < pow2 (int (bitlen (nat n)))"
proof -
  define b where "b = bitlen (nat n)"
  have b: "1 \<le> b" using assms bitlen_pos [of "nat n"] by (simp add: b_def)
  have lo: "(2::int) ^ (b - 1) \<le> n" using bitlen_lower [of "nat n"] assms by (simp add: b_def)
  have hi: "n < (2::int) ^ b"
  proof -
    have "nat n < 2 ^ b" by (simp add: b_def bitlen_less_iff)
    then show ?thesis using assms by simp
  qed
  have "pow2 (int b - 1) = of_int (2 ^ (b - 1))" using b by (simp add: pow2_def nat_diff_distrib)
  moreover have "pow2 (int b) = of_int (2 ^ b)" by (simp add: pow2_def)
  ultimately show ?thesis using lo hi unfolding b_def [symmetric] by (simp only: of_int_le_iff of_int_less_iff)
qed

lemma flog2_bounds:
  assumes p: "0 < p" and q: "0 < q"
  shows "pow2 (flog2 p q) \<le> of_int p / of_int q \<and> of_int p / of_int q < pow2 (flog2 p q + 1)"
proof -
  define d where "d = bitlen_diff p q"
  note P = pow2_bitlen [OF p] and Q = pow2_bitlen [OF q]
  have qpos: "(0::rat) < of_int q" using q by simp
  have upper: "of_int p / of_int q < pow2 (d + 1)"
  proof -
    have "of_int p / of_int q < pow2 (int (bitlen (nat p))) / of_int q"
      using P qpos by (simp add: divide_strict_right_mono)
    also have "\<dots> \<le> pow2 (int (bitlen (nat p))) / pow2 (int (bitlen (nat q)) - 1)"
      using Q qpos by (intro divide_left_mono) (simp_all add: mult_pos_pos)
    finally show ?thesis by (simp add: pow2_diff d_def bitlen_diff_def algebra_simps)
  qed
  have lower: "pow2 (d - 1) < of_int p / of_int q"
  proof -
    have "pow2 (int (bitlen (nat p)) - 1) / pow2 (int (bitlen (nat q))) <
        pow2 (int (bitlen (nat p)) - 1) / of_int q"
      using Q qpos by (intro divide_strict_left_mono) simp_all
    also have "\<dots> \<le> of_int p / of_int q" using P qpos by (simp add: divide_right_mono)
    finally show ?thesis by (simp add: pow2_diff d_def bitlen_diff_def algebra_simps)
  qed
  show ?thesis
  proof (cases "ge_pow2 p q d")
    case True
    with ge_pow2_iff [OF q] upper show ?thesis by (simp add: flog2_def d_def)
  next
    case False
    with ge_pow2_iff [OF q] lower show ?thesis by (simp add: flog2_def d_def)
  qed
qed

lemma pow2_log_unique:
  assumes "pow2 a \<le> v" "v < pow2 (a + 1)" "pow2 b \<le> v" "v < pow2 (b + 1)"
  shows "a = b"
proof (rule linorder_cases [of a b])
  assume "a < b"
  then have "pow2 (a + 1) \<le> pow2 b" by (intro pow2_mono) simp
  with assms show ?thesis by simp
next
  assume "b < a"
  then have "pow2 (b + 1) \<le> pow2 a" by (intro pow2_mono) simp
  with assms show ?thesis by simp
qed

lemma flog2_exact:
  assumes p: "0 < p" and q: "0 < q" and m: "0 < m" and v: "of_int p / of_int q = fin_val m e"
  shows "flog2 p q = int (bitlen (nat m)) - 1 + e"
proof (rule pow2_log_unique)
  note F = flog2_bounds [OF p q] and M = pow2_bitlen [OF m]
  show "pow2 (flog2 p q) \<le> fin_val m e" "fin_val m e < pow2 (flog2 p q + 1)" using F v by simp_all
  show "pow2 (int (bitlen (nat m)) - 1 + e) \<le> fin_val m e"
    using M by (simp add: fin_val_def pow2_add mult_right_mono)
  show "fin_val m e < pow2 (int (bitlen (nat m)) - 1 + e + 1)"
    using M by (simp add: fin_val_def pow2_add mult_strict_right_mono)
qed

lemma round_ratio_exact:
  assumes p: "0 < p" and q: "0 < q" and m: "0 < m" "odd m" "m < 2 ^ 53"
    and e: "- 1074 \<le> e" and top: "int (bitlen (nat m)) + e \<le> 1024"
    and v: "of_int p / of_int q = fin_val m e"
  shows "finish 1 (ratio_mant p q (ratio_exp p q)) (ratio_exp p q) = Fin m e"
proof -
  define b where "b = int (bitlen (nat m))"
  define x where "x = ratio_exp p q"
  define k where "k = nat (e - x)"
  have b53: "b \<le> 53"
  proof -
    have "nat m < 2 ^ 53" using m(3) by simp
    then show ?thesis using bitlen_less_iff [of "nat m" 53] by (simp add: b_def)
  qed
  have x: "x = max (b + e - 53) (- 1074)"
    using flog2_exact [OF p q m(1) v] by (simp add: x_def ratio_exp_def b_def)
  have xe: "x \<le> e" and ek: "e = x + int k" using x b53 e by (simp_all add: k_def)
  have pv: "(of_int p :: rat) = of_int q * (of_int m * pow2 e)"
    using v q by (simp add: fin_val_def field_simps)
  have mant: "ratio_mant p q x = m * 2 ^ k"
  proof (cases "x \<le> 0")
    case True
    have "(of_int (p * 2 ^ nat (- x)) :: rat) = of_int (q * (m * 2 ^ k))"
    proof -
      have "pow2 e * pow2 (- x) = pow2 (e + - x)" by (rule pow2_add [symmetric])
      also have "e + - x = int k" using ek by simp
      also have "pow2 (int k) = of_int (2 ^ k)" by (simp add: pow2_def)
      finally have "pow2 e * pow2 (- x) = of_int (2 ^ k)" .
      with True show ?thesis by (simp add: pv pow2_def [of "- x"] algebra_simps)
    qed
    then have "p * 2 ^ nat (- x) = q * (m * 2 ^ k)" by (simp only: of_int_eq_iff)
    with True q show ?thesis by (simp add: ratio_mant_def round_even_exact)
  next
    case False
    have "(of_int p :: rat) = of_int (q * 2 ^ nat x * (m * 2 ^ k))"
    proof -
      have "pow2 e = pow2 x * pow2 (int k)" using ek by (simp add: pow2_add)
      also have "\<dots> = of_int (2 ^ nat x) * of_int (2 ^ k)" using False by (simp add: pow2_def)
      finally have "pow2 e = of_int (2 ^ nat x) * of_int (2 ^ k)" .
      then show ?thesis by (simp add: pv algebra_simps)
    qed
    then have "p = q * 2 ^ nat x * (m * 2 ^ k)" by (simp only: of_int_eq_iff)
    with False q show ?thesis by (simp add: ratio_mant_def round_even_exact)
  qed
  have bl: "int (bitlen (nat (m * 2 ^ k))) + x = b + e"
  proof -
    have "nat (m * 2 ^ k) = nat m * 2 ^ k" using m(1) by (simp add: nat_mult_distrib nat_power_eq)
    with bitlen_shift [of "nat m" k] m(1) ek show ?thesis by (simp add: b_def)
  qed
  have "canon (m * 2 ^ k) x = Fin m e"
    using canon_shift [of m k x] m ek by simp
  with mant bl top m(1) show ?thesis
    by (simp add: finish_def x_def [symmetric] b_def)
qed

lemma parse_float_double: "is_double (Fin m e) \<Longrightarrow> parse_float (fin_val m e) = Fin m e"
proof -
  assume d: "is_double (Fin m e)"
  obtain p q where pq: "quotient_of (fin_val m e) = (p, q)" by fastforce
  have q: "0 < q" using quotient_of_denom_pos [OF pq] .
  have v: "of_int p / of_int q = fin_val m e" using quotient_of_div [OF pq] by simp
  show ?thesis
  proof (cases "m = 0")
    case True
    with d have "e = 0" by simp
    with True show ?thesis by (simp add: parse_float_def round_ratio_def fin_val_def)
  next
    case False
    with d have odd: "odd m" and lt: "\<bar>m\<bar> < 2 ^ 53" and e: "- 1074 \<le> e"
      and top: "int (bitlen (nat \<bar>m\<bar>)) + e \<le> 1024" by auto
    have pos: "0 < p \<longleftrightarrow> 0 < m"
    proof -
      have "(0::rat) < of_int p / of_int q \<longleftrightarrow> 0 < p" using q by (simp add: zero_less_divide_iff)
      moreover have "(0::rat) < fin_val m e \<longleftrightarrow> 0 < m"
        using pow2_pos [of e] by (auto simp: fin_val_def zero_less_mult_iff)
      ultimately show ?thesis using v by simp
    qed
    have negv: "p < 0 \<longleftrightarrow> m < 0"
    proof -
      have "of_int p / of_int q < (0::rat) \<longleftrightarrow> p < 0" using q by (simp add: divide_less_0_iff)
      moreover have "fin_val m e < (0::rat) \<longleftrightarrow> m < 0"
        using pow2_pos [of e] by (auto simp: fin_val_def mult_less_0_iff)
      ultimately show ?thesis using v by simp
    qed
    show ?thesis
    proof (cases "0 < m")
      case True
      with pos have "0 < p" by simp
      with round_ratio_exact [OF _ q True odd _ e _ v] lt top True
      show ?thesis by (simp add: parse_float_def pq round_ratio_def)
    next
      case neg: False
      have "m < 0" using False neg by linarith
      with negv have p: "p < 0" by simp
      have v': "of_int (- p) / of_int q = fin_val (- m) e" using v by (simp add: fin_val_def)
      have "finish 1 (ratio_mant (- p) q (ratio_exp (- p) q)) (ratio_exp (- p) q) = Fin (- m) e"
        by (rule round_ratio_exact [OF _ q _ _ _ e _ v']) (use p neg False odd lt top in auto)
      with p show ?thesis by (simp add: parse_float_def pq round_ratio_def)
    qed
  qed
qed

lemma round_even_scale: "0 < k \<Longrightarrow> 0 < q \<Longrightarrow> round_even (k * p) (k * q) = round_even p q"
  by (simp add: round_even_def mod_mult_mult1)

lemma ratio_mant_scale: "0 < k \<Longrightarrow> 0 < q \<Longrightarrow> ratio_mant (k * p) (k * q) e = ratio_mant p q e"
  using round_even_scale [where k = k and p = "p * 2 ^ nat (- e)" and q = q]
    round_even_scale [where k = k and p = p and q = "q * 2 ^ nat e"]
  by (simp add: ratio_mant_def mult.assoc)

lemma flog2_scale:
  assumes "0 < k" "0 < p" "0 < q"
  shows "flog2 (k * p) (k * q) = flog2 p q"
proof (rule pow2_log_unique)
  have v: "(of_int (k * p) :: rat) / of_int (k * q) = of_int p / of_int q" using assms(1) by simp
  from assms have "0 < k * p" "0 < k * q" by simp_all
  note F = flog2_bounds [OF this]
  show "pow2 (flog2 (k * p) (k * q)) \<le> of_int p / of_int q"
    "of_int p / of_int q < pow2 (flog2 (k * p) (k * q) + 1)" using F v by simp_all
  show "pow2 (flog2 p q) \<le> of_int p / of_int q" "of_int p / of_int q < pow2 (flog2 p q + 1)"
    using flog2_bounds [OF assms(2,3)] by simp_all
qed

lemma round_ratio_scale:
  assumes "0 < k" "0 < q"
  shows "round_ratio (k * p) (k * q) = round_ratio p q"
proof -
  have pos: "0 < p \<Longrightarrow> ratio_exp (k * p) (k * q) = ratio_exp p q"
    using flog2_scale [OF assms(1) _ assms(2)] by (simp add: ratio_exp_def)
  have neg: "p < 0 \<Longrightarrow> ratio_exp (k * - p) (k * q) = ratio_exp (- p) q"
    using flog2_scale [OF assms(1) _ assms(2), of "- p"] by (simp add: ratio_exp_def)
  show ?thesis using assms pos neg ratio_mant_scale [OF assms]
    ratio_mant_scale [OF assms, of "- p"]
    by (auto simp add: round_ratio_def zero_less_mult_iff mult_less_0_iff)
qed

lemma parse_float_ratio:
  assumes q: "0 < q"
  shows "parse_float (of_int p / of_int q) = round_ratio p q"
proof -
  obtain p' q' where pq: "quotient_of (of_int p / of_int q) = (p', q')" by fastforce
  have q': "0 < q'" using quotient_of_denom_pos [OF pq] .
  have "(of_int p' :: rat) / of_int q' = of_int p / of_int q" using quotient_of_div [OF pq] by simp
  then have "of_int (p * q') = (of_int (p' * q) :: rat)" using q q' by (simp add: field_simps)
  then have eq: "q' * p = q * p'" by (simp only: of_int_eq_iff) (simp add: algebra_simps)
  have "round_ratio p q = round_ratio (q' * p) (q' * q)" using round_ratio_scale [OF q' q] by simp
  also have "\<dots> = round_ratio (q * p') (q * q')" by (metis eq mult.commute)
  also have "\<dots> = round_ratio p' q'" using round_ratio_scale [OF q q'] .
  finally show ?thesis by (simp add: parse_float_def pq)
qed

lemma dec_float_value: "dec_float n t = parse_float (of_int n * pow10 t)"
proof (cases "0 \<le> t")
  case True
  then have "(of_int n * pow10 t :: rat) = of_int (n * 10 ^ nat t) / of_int 1" by (simp add: pow10_def)
  with True show ?thesis by (simp only: parse_float_ratio [of 1] dec_float_def) simp
next
  case False
  then have "(of_int n * pow10 t :: rat) = of_int n / of_int (10 ^ nat (- t))" by (simp add: pow10_def)
  moreover have "(0::int) < 10 ^ nat (- t)" by simp
  ultimately show ?thesis using False by (simp only: parse_float_ratio dec_float_def) simp
qed

section \<open>Comparison\<close>

text \<open>\<open>dy_le\<close> compares two dyadics by aligning their exponents; it is the order of their values.\<close>

lemma fin_val_shift: "e \<le> e' \<Longrightarrow> fin_val m e' = of_int (m * 2 ^ nat (e' - e)) * pow2 e"
proof -
  assume "e \<le> e'"
  then have "pow2 e' = pow2 (e' - e) * pow2 e" using pow2_add [of "e' - e" e] by simp
  with \<open>e \<le> e'\<close> show ?thesis by (simp add: fin_val_def pow2_nat)
qed

lemma js_le_value: "js_le (Fin m1 e1) (Fin m2 e2) \<longleftrightarrow> fin_val m1 e1 \<le> fin_val m2 e2"
proof -
  define d where "d = min e1 e2"
  have "fin_val m1 e1 = of_int (m1 * 2 ^ nat (e1 - d)) * pow2 d"
    "fin_val m2 e2 = of_int (m2 * 2 ^ nat (e2 - d)) * pow2 d"
    using fin_val_shift [of d e1 m1] fin_val_shift [of d e2 m2] by (simp_all add: d_def)
  then have "fin_val m1 e1 \<le> fin_val m2 e2 \<longleftrightarrow>
      of_int (m1 * 2 ^ nat (e1 - d)) \<le> (of_int (m2 * 2 ^ nat (e2 - d)) :: rat)"
    by (simp add: mult_le_cancel_right)
  then show ?thesis by (simp only: js_le.simps dy_le_def d_def of_int_le_iff)
qed

end
