(* ===== verification/Fee_Split.thy ===== *)
theory Fee_Split
  imports Operations JS_Rounding
begin

text \<open>
  The fee split of \<open>POST /operations\<close> (lines 39--40): \<open>fee = gross_value * 0.03\<close> and
  \<open>net_value = gross_value - fee\<close> in binary64 arithmetic. The constant \<open>0.03\<close> is itself
  rounded (\<open>FEE_PERCENTAGE\<close> is \<open>1080863910568919 * 2^-55\<close>), and the product rounds
  once: the fee is three percent of the gross to within a relative \<open>2^-57\<close>. The three
  amounts are sent to the NUMERIC columns as \<open>String(x)\<close> (\<open>Ledger.js_string_value\<close>),
  which reads back as the same double, so the 201 response reports exactly the numbers
  the route computed. The stored decimals need not add up: for the gross \<open>0.03\<close> the
  columns hold \<open>0.0009\<close> and \<open>0.029099999999999997\<close>, whose sum is not \<open>0.03\<close>
  (spec.md section 3: \<open>fee + net_value == gross_value\<close>, always).
\<close>

lemma fee_percentage_val: "FEE_PERCENTAGE = Fin 1080863910568919 (- 55)"
  by (simp add: FEE_PERCENTAGE_def js_eval)

lemma fee_percentage_value: "fin_val 1080863910568919 (- 55) = 1080863910568919 / 36028797018963968"
  by (simp add: fin_val_def pow2_def)

lemma max_le_add: "0 \<le> a \<Longrightarrow> 0 \<le> b \<Longrightarrow> max a b \<le> a + (b :: rat)"
  by simp

text \<open>C21: The binary64 fee gross_value * FEE_PERCENTAGE is three percent of the gross value to within |gross| / 2^57 plus 2^-1075, the rounding of the constant 0.03 included.\<close>

theorem fee_rel_error:
  assumes "fee_of (Fin mg eg) = Fin mf ef"
  shows "\<bar>fin_val mf ef - 3 / 100 * fin_val mg eg\<bar> \<le> \<bar>fin_val mg eg\<bar> / 2 ^ 57 + pow2 (- 1075)"
proof -
  define x where "x = fin_val mg eg"
  define c :: rat where "c = 1080863910568919 / 36028797018963968"
  have round: "\<bar>fin_val mf ef - x * c\<bar> \<le> max (\<bar>x * c\<bar> / 2 ^ 53) (pow2 (- 1075))"
    using js_mul_err [of mg eg 1080863910568919 "- 55" mf ef] assms
    by (simp add: fee_of_def fee_percentage_val fee_percentage_value x_def c_def)
  have c: "0 < c" "c \<le> 1 / 32" "\<bar>c - 3 / 100\<bar> = 1 / (25 * 2 ^ 55)" by (simp_all add: c_def)
  have "\<bar>x * c - 3 / 100 * x\<bar> = \<bar>x\<bar> * \<bar>c - 3 / 100\<bar>"
    by (simp add: abs_mult [symmetric] algebra_simps)
  moreover have "\<bar>fin_val mf ef - 3 / 100 * x\<bar> \<le> \<bar>fin_val mf ef - x * c\<bar> + \<bar>x * c - 3 / 100 * x\<bar>"
    using abs_triangle_ineq [of "fin_val mf ef - x * c" "x * c - 3 / 100 * x"] by simp
  ultimately have "\<bar>fin_val mf ef - 3 / 100 * x\<bar> \<le> \<bar>fin_val mf ef - x * c\<bar> + \<bar>x\<bar> * \<bar>c - 3 / 100\<bar>"
    by simp
  also have "\<dots> \<le> \<bar>x\<bar> * c / 2 ^ 53 + pow2 (- 1075) + \<bar>x\<bar> / (25 * 2 ^ 55)"
  proof -
    have "\<bar>x * c\<bar> = \<bar>x\<bar> * c" using c(1) by (simp add: abs_mult)
    with round have r: "\<bar>fin_val mf ef - x * c\<bar> \<le> max (\<bar>x\<bar> * c / 2 ^ 53) (pow2 (- 1075))"
      by simp
    have m: "max (\<bar>x\<bar> * c / 2 ^ 53) (pow2 (- 1075)) \<le> \<bar>x\<bar> * c / 2 ^ 53 + pow2 (- 1075)"
      by (rule max_le_add) (use c(1) in simp_all)
    have d: "\<bar>x\<bar> * \<bar>c - 3 / 100\<bar> = \<bar>x\<bar> / (25 * 2 ^ 55)"
      by (simp only: c(3)) simp
    from r m d show ?thesis by linarith
  qed
  also have "\<dots> \<le> \<bar>x\<bar> / 2 ^ 57 + pow2 (- 1075)"
  proof -
    have "\<bar>x\<bar> * c / 2 ^ 53 \<le> \<bar>x\<bar> * (1 / 32) / 2 ^ 53"
      using c by (intro divide_right_mono mult_left_mono) simp_all
    then show ?thesis by simp
  qed
  finally show ?thesis by (simp add: x_def)
qed

lemma js_sub_fin_double: "is_double (js_sub (Fin m e) y)"
  by (cases y) (simp_all add: round_dyadic_double)

lemma fee_of_double: "is_double (fee_of g)"
  by (cases g) (simp_all add: fee_of_def fee_percentage_val round_dyadic_double)

lemma net_of_double: "is_double (net_of g)"
proof (cases g)
  case (Fin m e)
  then show ?thesis by (simp add: net_of_def js_sub_fin_double)
qed (simp_all add: net_of_def fee_of_def fee_percentage_val)

text \<open>A money value the store accepted for a double reads back as that double.\<close>

lemma str_at_parse: "str_at x sg a b q k = Some d \<Longrightarrow> parse_float d = x"
  by (auto simp add: str_at_def Let_def dec_float_value split: if_splits)

lemma parse_money_in: "is_double x \<Longrightarrow> pg_money_in x = Some a \<Longrightarrow> parse_float a = x"
proof (cases x)
  case (Fin m e)
  assume d: "is_double x" and a: "pg_money_in x = Some a"
  show ?thesis
  proof (cases "m = 0")
    case True
    with d Fin have "e = 0" by simp
    with True Fin a parse_float_double [of 0 0] show ?thesis
      by (simp add: js_string_value_def fin_val_def)
  next
    case False
    define b where "b = \<bar>m\<bar> * 2 ^ nat e"
    define c :: int where "c = 2 ^ nat (- e)"
    show ?thesis
    proof (cases "first_some (str_at x (sgn m) b c (flog10 b c)) [1..<18]")
      case None
      with False Fin a have "a = fin_val m e" by (simp add: js_string_value_def Let_def b_def c_def)
      then show ?thesis using parse_float_double [of m e] d Fin by blast
    next
      case (Some y)
      with False Fin a have "a = y" by (simp add: js_string_value_def Let_def b_def c_def)
      with Some show ?thesis using first_some_Some [OF Some] str_at_parse by blast
    qed
  qed
qed (simp_all)

text \<open>The gross value \<open>0.01\<close> of a request and the fee and net value the route computes.\<close>

lemma cent_split:
  "js_decimal 1 2 = Fin 5764607523034235 (- 59)"
  "fee_of (Fin 5764607523034235 (- 59)) = Fin 5534023222112865 (- 64)"
  "net_of (Fin 5764607523034235 (- 59)) = Fin 698958662167901 (- 56)"
proof -
  show "js_decimal 1 2 = Fin 5764607523034235 (- 59)" by (simp add: js_eval)
  show f: "fee_of (Fin 5764607523034235 (- 59)) = Fin 5534023222112865 (- 64)"
    by (simp add: fee_of_def fee_percentage_val js_eval)
  show "net_of (Fin 5764607523034235 (- 59)) = Fin 698958662167901 (- 56)"
    by (simp add: net_of_def f js_eval)
qed

text \<open>
  The gross \<open>0.03\<close>: the route computes the fee \<open>0.0009\<close> and the net value
  \<open>0.029099999999999997\<close>, the driver sends those decimals, and the NUMERIC columns then
  hold a fee and a net value whose sum is not the gross (the 17-digit search of
  \<open>js_string_value\<close> runs to its last step for the net value).
\<close>

lemma stored_split_inexact:
  "fee_of (js_decimal 3 2) = Fin 4150517416584649 (- 62)"
  "net_of (js_decimal 3 2) = Fin 8387503946014811 (- 58)"
  "pg_money_in (js_decimal 3 2) = Some (3 / 100)"
  "pg_money_in (Fin 4150517416584649 (- 62)) = Some (9 / 10000)"
  "pg_money_in (Fin 8387503946014811 (- 58)) = Some (29099999999999997 / 1000000000000000000)"
  "9 / 10000 + 29099999999999997 / 1000000000000000000 \<noteq> (3 / 100 :: rat)"
proof -
  have g: "js_decimal 3 2 = Fin 1080863910568919 (- 55)" by (simp add: js_eval)
  show f: "fee_of (js_decimal 3 2) = Fin 4150517416584649 (- 62)"
    by (simp add: g fee_of_def FEE_PERCENTAGE_def js_eval)
  show "net_of (js_decimal 3 2) = Fin 8387503946014811 (- 58)"
    by (simp add: g net_of_def f [unfolded g] js_eval)
  have "flog10 (\<bar>1080863910568919\<bar> * 2 ^ nat (- 55)) (2 ^ nat (- (- 55))) = - 2"
    "flog10 (\<bar>4150517416584649\<bar> * 2 ^ nat (- 62)) (2 ^ nat (- (- 62))) = - 4"
    "flog10 (\<bar>8387503946014811\<bar> * 2 ^ nat (- 58)) (2 ^ nat (- (- 58))) = - 2"
    by (simp_all add: flog10_def ge_pow10_def dec_string.simps)
  moreover have "str_at (Fin 1080863910568919 (- 55)) 1 1080863910568919 36028797018963968 (- 2) 1 = Some (3 / 100)"
    "str_at (Fin 4150517416584649 (- 62)) 1 4150517416584649 4611686018427387904 (- 4) 1 = Some (9 / 10000)"
    by (simp_all add: str_at_defs js_eval)
  moreover have "str_at (Fin 8387503946014811 (- 58)) 1 8387503946014811 288230376151711744 (- 2) 1 = None"
    "str_at (Fin 8387503946014811 (- 58)) 1 8387503946014811 288230376151711744 (- 2) 2 = None"
    "str_at (Fin 8387503946014811 (- 58)) 1 8387503946014811 288230376151711744 (- 2) 3 = None"
    "str_at (Fin 8387503946014811 (- 58)) 1 8387503946014811 288230376151711744 (- 2) 4 = None"
    "str_at (Fin 8387503946014811 (- 58)) 1 8387503946014811 288230376151711744 (- 2) 5 = None"
    "str_at (Fin 8387503946014811 (- 58)) 1 8387503946014811 288230376151711744 (- 2) 6 = None"
    "str_at (Fin 8387503946014811 (- 58)) 1 8387503946014811 288230376151711744 (- 2) 7 = None"
    "str_at (Fin 8387503946014811 (- 58)) 1 8387503946014811 288230376151711744 (- 2) 8 = None"
    "str_at (Fin 8387503946014811 (- 58)) 1 8387503946014811 288230376151711744 (- 2) 9 = None"
    "str_at (Fin 8387503946014811 (- 58)) 1 8387503946014811 288230376151711744 (- 2) 10 = None"
    "str_at (Fin 8387503946014811 (- 58)) 1 8387503946014811 288230376151711744 (- 2) 11 = None"
    "str_at (Fin 8387503946014811 (- 58)) 1 8387503946014811 288230376151711744 (- 2) 12 = None"
    "str_at (Fin 8387503946014811 (- 58)) 1 8387503946014811 288230376151711744 (- 2) 13 = None"
    "str_at (Fin 8387503946014811 (- 58)) 1 8387503946014811 288230376151711744 (- 2) 14 = None"
    "str_at (Fin 8387503946014811 (- 58)) 1 8387503946014811 288230376151711744 (- 2) 15 = None"
    "str_at (Fin 8387503946014811 (- 58)) 1 8387503946014811 288230376151711744 (- 2) 16 = None"
    "str_at (Fin 8387503946014811 (- 58)) 1 8387503946014811 288230376151711744 (- 2) 17 = Some (29099999999999997 / 1000000000000000000)"
    by (simp_all add: str_at_defs js_eval)
  ultimately show "pg_money_in (js_decimal 3 2) = Some (3 / 100)"
    "pg_money_in (Fin 4150517416584649 (- 62)) = Some (9 / 10000)"
    "pg_money_in (Fin 8387503946014811 (- 58)) = Some (29099999999999997 / 1000000000000000000)"
    by (auto simp del: pg_money_in.simps simp add: g upt_18 intro!: pg_money_in_at)
  show "9 / 10000 + 29099999999999997 / 1000000000000000000 \<noteq> (3 / 100 :: rat)" by simp
qed

text \<open>C19: For a valid create request whose gross value is a binary64 double with finite fee and net value, the 201 response reports gross_value, fee and net_value as exactly the numbers the route computed: the driver stores each as the decimal String(x), and parseFloat reads that decimal back as the same double.\<close>

theorem create_reports_computed:
  assumes "txn s = None" "faults s = []" "js_truthy rid" "js_truthy (JNumber g)"
    "\<not> js_le g (Fin 0 0)" "receiver_key pg_cfg rid = KeyOf r" "receivers (committed s) r \<noteq> None"
    "is_double g" "g = Fin mg eg" "fee_of g = Fin mf ef" "net_of g = Fin mn en"
  shows "\<exists>j s'. create_operation pg_cfg rid (JNumber g) s =
      (Reply 201 (MessageOpBody MsgAwaitingConfirmation j), s') \<and>
    j_gross j = g \<and> j_fee j = fee_of g \<and> j_net j = net_of g"
proof -
  have m: "pg_money_in g = Some (js_string_value g)" "pg_money_in (fee_of g) = Some (js_string_value (fee_of g))"
    "pg_money_in (net_of g) = Some (js_string_value (net_of g))" using assms(9-11) by simp_all
  have p: "parse_float (js_string_value g) = g" "parse_float (js_string_value (fee_of g)) = fee_of g"
    "parse_float (js_string_value (net_of g)) = net_of g"
    using parse_money_in [OF assms(8) m(1)] parse_money_in [OF fee_of_double m(2)]
      parse_money_in [OF net_of_double m(3)] by simp_all
  show ?thesis
    using assms(1-7) m p
    by (simp add: pg_cfg_def create_operation_def create_try_def query_defs qbind_def qreturn_def
      on_tables_def guarded_def table_defs Let_def op_json_of_def new_operation_def)
qed

theorem fee_rel_error_witness:
  "\<bar>fin_val 5534023222112865 (- 64) - 3 / 100 * fin_val 5764607523034235 (- 59)\<bar> \<le>
     \<bar>fin_val 5764607523034235 (- 59)\<bar> / 2 ^ 57 + pow2 (- 1075)"
  using fee_rel_error [OF cent_split(2)] .

theorem create_reports_computed_witness:
  "\<exists>j s'. create_operation pg_cfg (JNumber (Fin 1 0)) (JNumber (Fin 5764607523034235 (- 59)))
      (store_of demo_ledger []) = (Reply 201 (MessageOpBody MsgAwaitingConfirmation j), s') \<and>
    j_gross j = Fin 5764607523034235 (- 59) \<and> j_fee j = Fin 5534023222112865 (- 64) \<and>
    j_net j = Fin 698958662167901 (- 56)"
  using create_reports_computed [OF _ _ _ _ _ _ _ _ refl cent_split(2,3),
      of "store_of demo_ledger []" "JNumber (Fin 1 0)" 1]
  by (simp add: cent_split store_of_def demo_ledger_def pg_cfg_def dy_le_def)

end
