(* ===== verification/Validation.thy ===== *)
theory Validation
  imports Operations JS_Rounding
begin

text \<open>
  The validation of \<open>POST /operations\<close> (lines 12--23): \<open>!receiver_id || !gross_value\<close>, then
  \<open>typeof gross_value !== 'number' || gross_value <= 0\<close>. The route answers 400 exactly
  when the receiver id is falsy or the gross value is not a number of positive value, as
  the order of values decides (\<open>positive_gross\<close>, the reference). \<open>Infinity\<close>, which
  \<open>JSON.parse\<close> yields for a literal such as \<open>1e999\<close>, passes the validation; the
  store then rejects the infinite amount and the route answers 500.
\<close>

text \<open>The reference: a JavaScript number whose value is greater than zero.\<close>

fun positive_gross :: "jsval \<Rightarrow> bool" where
  "positive_gross (JNumber (Fin m e)) = (0 < fin_val m e)"
| "positive_gross (JNumber PosInf) = True"
| "positive_gross _ = False"

lemma gross_accepted_iff: "js_truthy gv \<and> \<not> gross_rejected gv \<longleftrightarrow> positive_gross gv"
proof (cases gv)
  case (JNumber n)
  then show ?thesis
  proof (cases n)
    case (Fin m e)
    have "fin_val 0 0 = 0" by (simp add: fin_val_def)
    with JNumber Fin show ?thesis using js_le_value [of m e 0 0] by auto
  qed simp_all
qed simp_all

text \<open>C22: The create route rejects a request with 400 (missing fields or gross not positive) exactly when receiver_id is falsy or gross_value is not a JavaScript number of value greater than zero: the binary64 test gross_value <= 0 is the order of the exact values.\<close>

theorem create_validation_exact:
  "fst (create_operation cfg rid gv s) \<in>
     {Reply 400 (ErrorBody MsgMissingFields), Reply 400 (ErrorBody MsgGrossNotPositive)} \<longleftrightarrow>
   \<not> (js_truthy rid \<and> positive_gross gv)"
proof (cases "js_truthy rid \<and> positive_gross gv")
  case True
  then obtain g where g: "gv = JNumber g" "js_truthy gv" "\<not> js_le g (Fin 0 0)"
    using gross_accepted_iff [of gv] by (cases gv) auto
  with True show ?thesis
    by (auto simp: create_operation_def split: prod.splits sum.splits option.splits)
next
  case False
  then show ?thesis using gross_accepted_iff [of gv]
    by (cases gv) (auto simp: create_operation_def)
qed

text \<open>C23: A gross_value of Infinity passes the validation of the create route; when the store rejects the infinite amount the INSERT fails and the route answers 500, leaving the committed tables as they were, instead of the 400 of invalid input.\<close>

theorem create_infinite_gross:
  assumes "txn s = None" "faults s = []" "js_truthy rid" "receiver_key cfg rid = KeyOf r"
    "receivers (committed s) r \<noteq> None" "money_in cfg PosInf = None"
  shows "create_operation cfg rid (JNumber PosInf) s = (Reply 500 (ErrorBody MsgCreateFailed), s)"
  using assms
  by (simp add: create_operation_def create_try_def query_defs qbind_def qreturn_def
      on_tables_def guarded_def table_defs Let_def)

theorem create_validation_exact_witness:
  "fst (create_operation pg_cfg (JNumber (Fin 1 0)) (JNumber PosInf) (store_of demo_ledger [])) \<notin>
     {Reply 400 (ErrorBody MsgMissingFields), Reply 400 (ErrorBody MsgGrossNotPositive)}"
  using create_validation_exact [of pg_cfg "JNumber (Fin 1 0)" "JNumber PosInf" "store_of demo_ledger []"]
  by simp

theorem create_infinite_gross_witness:
  "create_operation pg_cfg (JNumber (Fin 1 0)) (JNumber PosInf) (store_of demo_ledger []) =
     (Reply 500 (ErrorBody MsgCreateFailed), store_of demo_ledger [])"
  using create_infinite_gross [of "store_of demo_ledger []" "JNumber (Fin 1 0)" pg_cfg 1]
  by (simp add: store_of_def demo_ledger_def pg_cfg_def)

end
