(* ===== verification/Spec2Isabelle.thy ===== *)
theory Spec2Isabelle
  imports Lifecycle_Spec Pool_Credit Visibility Fee_Split Validation
begin

text \<open>
  A verification library for the Operation Service of the repository, the Express router
  \<open>src/routes/operations.js\<close>: \<open>POST /operations\<close> creates a pending operation whose fee
  is \<open>gross_value * FEE_PERCENTAGE\<close> and whose net value is \<open>gross_value - fee\<close>;
  \<open>GET /operations/:id\<close> reads one; \<open>POST /operations/:id/confirm\<close> marks it confirmed and
  credits its net value to its receiver's balance inside a transaction. The handlers talk to
  PostgreSQL through the database module \<open>../database\<close>, which is not in the repository:
  its tables, transactions and locking are modelled from spec.md sections 4.2 and 5.

  \<^bold>\<open>Theories.\<close>
  \<^item> \<open>Prelude\<close>: the collections \<open>js_eval\<close> and \<open>store_simps\<close>, the types \<open>money\<close> (exact
    rationals, PostgreSQL NUMERIC) and \<open>oid\<close>, and lemmas on maps and finite sums.
  \<^item> \<open>JS_Number\<close>: JavaScript numbers (IEEE-754 binary64) as canonical dyadics
    \<open>Fin m e = m * 2^e\<close> with \<open>PosInf\<close>, \<open>NegInf\<close>, \<open>NaN\<close>; rounding to nearest, ties to
    even, with gradual underflow and overflow (\<open>round_dyadic\<close>, \<open>round_ratio\<close>); \<open>*\<close>
    (\<open>js_mul\<close>), \<open>-\<close> (\<open>js_sub\<close>), \<open><=\<close> (\<open>js_le\<close>), decimal literals (\<open>js_decimal\<close>),
    \<open>parseFloat\<close> of NUMERIC text (\<open>parse_float\<close>), and the request values with their
    truthiness (\<open>jsval\<close>, \<open>js_truthy\<close>). \<open>bitlen\<close> and \<open>canon\<close> are \<open>function\<close>s with
    measure termination proofs.
  \<^item> \<open>JS_Rounding\<close>: the accuracy of that model: \<open>canon\<close> keeps the value, and one
    rounding, hence a product or a difference of finite numbers, is off by at most half a
    unit in the last place (\<open>round_dyadic_err\<close>, \<open>js_mul_err\<close>, \<open>js_sub_err\<close>); every
    result is a binary64 value (\<open>is_double\<close>); \<open>parseFloat\<close> of a fraction depends only on
    its value (\<open>round_ratio_scale\<close>, \<open>parse_float_ratio\<close>, \<open>dec_float_value\<close>), and of the
    exact value of a double is that double (\<open>parse_float_double\<close>).
  \<^item> \<open>Ledger\<close>: the store. The committed tables are the record \<open>ledger\<close> (receivers'
    balances, operations, the id sequence, the clock); an open transaction is a write
    buffer \<open>wbuf\<close> that \<open>COMMIT\<close> applies and \<open>ROLLBACK\<close> drops. Every SQL statement of
    the router is a table function \<open>t_*\<close> of the committed tables and the buffer, lifted to
    a query \<open>q_*\<close> of the state monad \<open>query\<close> (errors as \<open>exn + 'a\<close>). A query may fail: the
    store's fault list decides, one entry per query, so every pattern of failures is an
    input of the model. \<open>store_cfg\<close> abstracts how PostgreSQL casts the parameters;
    \<open>pg_cfg\<close> is the configuration of integer ids and NUMERIC amounts. \<open>dec_string\<close> is
    the decimal text of an id in a URL (a \<open>function\<close> with a measure termination proof),
    which \<open>parse_int4\<close> (\<open>int4in\<close>: white space, sign, digits) reads back. A number
    parameter goes out as \<open>String(x)\<close>: \<open>js_string_value\<close> searches the decimals of 1 to
    17 significant digits for the shortest one that reads back as \<open>x\<close>, closest to \<open>x\<close>,
    and \<open>pg_money_in\<close> stores its value.
  \<^item> \<open>Store_Logic\<close>: Hoare triples \<open>qvalid\<close> over the queries with assertions on the tables
    only, so that one proof covers every pattern of failing queries.
  \<^item> \<open>Operations\<close>: the three handlers, \<open>create_operation\<close> (lines 8--69), \<open>get_operation\<close>
    (72--105) and \<open>confirm_operation\<close> (108--184, with \<open>confirm_try\<close> the \<open>try\<close> block and
    \<open>confirm_handler\<close> the connection, \<open>catch\<close> and \<open>finally\<close>), each branch of the source a
    branch of the definition. An exception that escapes a handler is \<open>NoReply\<close>.
  \<^item> \<open>Fee_Split\<close>: the fee and net value of lines 39--40 against spec.md: the fee is
    three percent of the gross to within a relative \<open>2^-57\<close>; the 201 response reports
    exactly the numbers the route computed, since \<open>String(x)\<close> reads back as \<open>x\<close>
    (\<open>parse_money_in\<close>); and the stored fee and net value need not add up to the stored
    gross (\<open>stored_split_inexact\<close>: gross \<open>0.03\<close> stores \<open>0.0009\<close> and
    \<open>0.029099999999999997\<close>).
  \<^item> \<open>Validation\<close>: the two guards of lines 12--23 against a reference
    (\<open>positive_gross\<close>: a number of value greater than zero), and what becomes of
    \<open>Infinity\<close>, which they let through.
  \<^item> \<open>Lifecycle\<close>: requests served one after another (\<open>handle\<close>, \<open>reachable\<close>) and the
    ledger invariant over all reachable stores; a create answered 201 followed by a fetch
    of the returned id answers the same JSON (\<open>create_then_fetch\<close>).
  \<^item> \<open>Lifecycle_Spec\<close>: the operation lifecycle of spec.md 4.1 as an abstract state machine
    (\<open>spec_reach\<close>: create a pending operation, confirm a pending one with its credit)
    and the refinement of the service by it through \<open>abs_ledger\<close>.
  \<^item> \<open>Concurrency\<close>: concurrent confirm requests as sessions that issue the route's
    statements one at a time under READ COMMITTED with the row locks of \<open>UPDATE\<close>; a
    schedule is a list of session numbers.
  \<^item> \<open>Pool\<close>: the database module's pool of \<open>n\<close> clients around those sessions: a confirm
    request waits in \<open>db.connect()\<close> (line 112) for a free client and gives it back in
    \<open>finally\<close> (\<open>client.release()\<close>, line 182) after answering (\<open>pool_step\<close>,
    \<open>run_psched\<close>, \<open>pool_reach\<close>).
  \<^item> \<open>Visibility\<close>: atomicity under interleaving: the status change and the credit of a
    confirmation become visible together, and once every request for a pending operation
    has answered it has been credited at least once.
  \<^item> \<open>Pool_Credit\<close>: the double credit against the pool size: with one client the
    confirmations are serialised and credit each operation at most once.

  \<^bold>\<open>What is proved.\<close> The confirm route is atomic under every pattern of failing
  queries (both the status change and the credit, or neither), confirms a pending operation
  with exactly its net value, and never changes the tables for an operation already
  confirmed. The create route validates before any query, and its two guards reject
  exactly the requests whose receiver id is falsy or whose gross value is no number of
  positive value, \<open>Infinity\<close> included among the accepted ones (it then fails at the
  store with 500, not 400); never inserts for a missing
  receiver, and stores the decimals \<open>String(x)\<close> of the gross value, \<open>gross * 0.03\<close>
  and \<open>gross - fee\<close>; the fee is three percent of the gross up to the rounding of
  binary64, and the response reports exactly the numbers the route computed. Over any sequence of requests, each balance is
  the initial balance plus the net values of the confirmed operations, operations only
  move from pending to confirmed, and their amounts come from the fee computation; every
  reachable store is a state of the abstract lifecycle of spec.md 4.1. Under
  concurrency, no balance update is lost, a confirmation's status change and credit
  become visible together, N concurrent confirmations of a pending operation credit it
  at least once, and no interleaving deadlocks (the operation row is
  always locked before the receiver row), yet two confirmations of one operation that
  both read it before either commits both credit it: the route needs \<open>SELECT ... FOR
  UPDATE\<close> or a \<open>WHERE status = 'pending'\<close> guard on its \<open>UPDATE\<close> to meet spec.md 4.1.
  With the pool, every client is accounted for and every open transaction runs on a
  client its request holds, and a pool of one client or more never deadlocks and gets
  every client back. The double credit needs two clients: with a pool of one, no
  operation is credited twice. The scenario of spec.md section 8 is the demo ledger of
  \<open>Operations\<close> (\<open>demo_create_run\<close>, \<open>demo_confirm_run\<close>) on which the witnesses of the
  create, confirm and already-confirmed theorems run.

  \<^bold>\<open>Bounds and fuel.\<close> A session running alone finishes within six statements
  (\<open>run_solo\<close> with fuel 6: \<open>BEGIN\<close>, \<open>SELECT\<close>, two \<open>UPDATE\<close>s, \<open>COMMIT\<close>, re-read; the
  early returns take three), and \<open>run_solo_confirm\<close> proves that this fuel is enough for
  every store and gives the sequential handler's result. Schedules are finite lists; an
  \<open>UPDATE\<close> on a locked row is not enabled. Under the pool a request takes at most nine
  steps (connect, seven statements counting the \<open>catch\<close>'s \<open>ROLLBACK\<close>, release):
  \<open>pwork\<close> counts them and every step lowers it. The decimal search of \<open>String(x)\<close> stops
  at 17 significant digits, which suffice for every double; should none of them read
  back, the exact value is stored, which reads back too.

  \<^bold>\<open>Not modelled.\<close> Express routing, body parsing and \<open>res.status().json()\<close> beyond the
  status code and the body's fields (an external library; the responses are the
  datatype \<open>response\<close>); \<open>console.error\<close> logging (no effect on state); the timestamps of
  \<open>created_at\<close> beyond a clock value; create and fetch requests interleaved with the
  confirm sessions: they are modelled one request at a time (\<open>Lifecycle\<close>); each of
  their queries is one autocommitted statement on the committed rows, on a pool client
  that \<open>db.query\<close> holds for that statement only, so they take no lock a confirmation
  waits for. The database schema is not in the repository: NUMERIC columns are assumed to
  reject the infinities and NaN, and the \<open>integer\<close> input syntax is the decimal one
  (PostgreSQL 16 also reads \<open>0x\<close> prefixes and digit separators). Negative zero is not
  distinguished from zero, as no branch of the code can tell them apart; \<open>js_truthy\<close>
  reads only the canonical zero as falsy. A \<open>COMMIT\<close> that the server applies while the
  client sees it fail is not modelled: a failed query has no effect. \<open>release\<close> ends
  the connection's transaction: \<open>client.release()\<close> itself does not, but the \<open>catch\<close>'s
  \<open>ROLLBACK\<close> fails only when the connection has failed, and the server then aborts the
  transaction. An exception escaping a handler (\<open>NoReply\<close>) leaves the request
  unanswered, as in Express 4.
\<close>

end
